theory Spec2Isabelle
  imports Complex_Main
begin

section \<open>The micrograd engine: class \<open>Value\<close>\<close>

text \<open>
  The engine is the Python class \<open>Value\<close> of \<^verbatim>\<open>micrograd.ipynb\<close>. A \<open>Value\<close> object has
  identity and a mutable field \<open>grad\<close>, and the closures stored in \<open>_backward\<close> mutate the
  objects they captured. The embedding therefore uses an explicit heap: a list of
  nodes, a reference being the index at which the object was allocated. Functions that
  allocate or mutate take the heap and return the new one; a function that can raise
  returns the exception as \<open>Inl\<close> together with the heap as it is at that moment.

  Scope of the model.
  \<^item> A number is a Python \<open>int\<close> (unbounded), a \<open>float\<close> or a \<open>complex\<close>, and the arithmetic
    raises where Python's raises: \<open>TypeError\<close>, \<open>ZeroDivisionError\<close>, and \<open>OverflowError\<close>
    when an \<open>int\<close> is too large to convert to \<open>float\<close> or when \<open>math.exp\<close> or \<open>**\<close> leaves
    the range of a double.
  \<^item> A \<open>float\<close> is modelled by the real number it denotes. The rounding of results to
    53 bits, signed zeros, and the non-finite floats (\<open>inf\<close> and \<open>nan\<close>, which \<open>+\<close> and \<open>*\<close>
    on floats produce silently on overflow) are not represented.
  \<^item> The interpreter's recursion limit (\<open>RecursionError\<close> in \<open>build_topo\<close> on very deep
    graphs) is not represented.
  \<^item> \<open>assert\<close> statements are executed (the interpreter does not run with \<open>-O\<close>).
\<close>

subsection \<open>Objects\<close>

type_synonym nid = nat

text \<open>
  The values that are not \<open>Value\<close> objects: numbers, and \<open>None\<close> (standing for the objects
  that are not numbers).
\<close>

datatype pyval = PyInt int | PyFloat real | PyComplex complex | PyNone

text \<open>What an argument \<open>other\<close> of an operator can be.\<close>

datatype pyobj = Val pyval | Ref nid

datatype py_error = AssertionError | TypeError | ZeroDivisionError | OverflowError

text \<open>
  The field \<open>_op\<close>: the strings \<open>''\<close>, \<open>'+'\<close>, \<open>'*'\<close>, \<open>f"**{other}"\<close>, \<open>'tanh'\<close>, \<open>'exp'\<close>.
\<close>

datatype op_tag = OpLeaf | OpAdd | OpMul | OpPow pyval | OpTanh | OpExp

text \<open>
  The field \<open>_backward\<close>: one constructor per \<open>def _backward()\<close> of the class, carrying
  the variables the closure captures (\<open>self\<close>, \<open>other\<close>, \<open>out\<close>; the exponent for \<open>**\<close>; the
  local \<open>t\<close> for \<open>tanh\<close>, which is a \<open>float\<close>). \<open>NoOp\<close> is \<open>lambda : None\<close>.
\<close>

datatype closure =
    NoOp
  | AddBack nid nid nid
  | MulBack nid nid nid
  | PowBack nid pyval nid
  | TanhBack nid real nid
  | ExpBack nid nid

text \<open>
  \<open>_prev\<close> is a Python \<open>set\<close>; it is held as the list of its elements in the order in which
  Python iterates over it.
\<close>

record node =
  v_data :: pyval
  v_grad :: pyval
  v_backward :: closure
  v_prev :: "nid list"
  v_op :: op_tag

type_synonym heap = "node list"

text \<open>
  The order in which Python iterates over \<open>set(_children)\<close> is fixed by hashing and is
  not known; it is a parameter \<open>\<sigma>\<close> of every function that constructs a \<open>Value\<close>. All that
  is known of it is \<open>set_order \<sigma>\<close>.
\<close>

definition set_order :: "(nid list \<Rightarrow> nid list) \<Rightarrow> bool" where
  "set_order \<sigma> \<longleftrightarrow> (\<forall>cs. set (\<sigma> cs) = set cs \<and> distinct (\<sigma> cs))"

subsection \<open>Arithmetic\<close>

text \<open>
  A real number that rounds to infinity as a double: the largest double is
  \<open>2^1024 - 2^971\<close>, and rounding to nearest takes everything from \<open>2^1024 - 2^970\<close> on
  out of range.
\<close>

definition double_overflow :: "real \<Rightarrow> bool" where
  "double_overflow x \<longleftrightarrow> 2 ^ 1024 - 2 ^ 970 \<le> \<bar>x\<bar>"

text \<open>Sequencing: the first exception ends the evaluation of an expression.\<close>

definition bind_err :: "py_error + 'a \<Rightarrow> ('a \<Rightarrow> py_error + 'b) \<Rightarrow> py_error + 'b" where
  "bind_err r f = (case r of Inl e \<Rightarrow> Inl e | Inr x \<Rightarrow> f x)"

text \<open>
  The conversion to \<open>float\<close> that mixed arithmetic and \<open>math.exp\<close> apply to an operand:
  an \<open>int\<close> too large raises \<open>OverflowError\<close>, what is not a real number raises
  \<open>TypeError\<close>.
\<close>

fun to_float :: "pyval \<Rightarrow> py_error + real" where
  "to_float (PyInt i) = (if double_overflow (of_int i) then Inl OverflowError else Inr (of_int i))"
| "to_float (PyFloat x) = Inr x"
| "to_float (PyComplex z) = Inl TypeError"
| "to_float PyNone = Inl TypeError"

text \<open>The conversion to \<open>complex\<close> that arithmetic with a \<open>complex\<close> operand applies.\<close>

fun to_complex :: "pyval \<Rightarrow> py_error + complex" where
  "to_complex (PyInt i) = bind_err (to_float (PyInt i)) (\<lambda>x. Inr (of_real x))"
| "to_complex (PyFloat x) = Inr (of_real x)"
| "to_complex (PyComplex z) = Inr z"
| "to_complex PyNone = Inl TypeError"

text \<open>
  \<open>a + b\<close>, \<open>a - b\<close> and \<open>a * b\<close> on values: exact on two \<open>int\<close>s; with a \<open>complex\<close> operand
  both are converted to \<open>complex\<close>; otherwise both are converted to \<open>float\<close>. \<open>None\<close> has
  no arithmetic.
\<close>

fun py_arith ::
  "(int \<Rightarrow> int \<Rightarrow> int) \<Rightarrow> (real \<Rightarrow> real \<Rightarrow> real) \<Rightarrow> (complex \<Rightarrow> complex \<Rightarrow> complex)
     \<Rightarrow> pyval \<Rightarrow> pyval \<Rightarrow> py_error + pyval" where
  "py_arith fi fr fc (PyInt i) (PyInt j) = Inr (PyInt (fi i j))"
| "py_arith fi fr fc PyNone b = Inl TypeError"
| "py_arith fi fr fc a PyNone = Inl TypeError"
| "py_arith fi fr fc (PyComplex z) b =
     bind_err (to_complex b) (\<lambda>w. Inr (PyComplex (fc z w)))"
| "py_arith fi fr fc a (PyComplex w) =
     bind_err (to_complex a) (\<lambda>z. Inr (PyComplex (fc z w)))"
| "py_arith fi fr fc a b =
     bind_err (to_float a) (\<lambda>x. bind_err (to_float b) (\<lambda>y. Inr (PyFloat (fr x y))))"

definition py_add :: "pyval \<Rightarrow> pyval \<Rightarrow> py_error + pyval" where
  "py_add a b = py_arith (+) (+) (+) a b"

definition py_sub :: "pyval \<Rightarrow> pyval \<Rightarrow> py_error + pyval" where
  "py_sub a b = py_arith (-) (-) (-) a b"

definition py_mul :: "pyval \<Rightarrow> pyval \<Rightarrow> py_error + pyval" where
  "py_mul a b = py_arith (*) (*) (*) a b"

text \<open>\<open>- a\<close> on values.\<close>

fun py_neg :: "pyval \<Rightarrow> py_error + pyval" where
  "py_neg (PyInt i) = Inr (PyInt (- i))"
| "py_neg (PyFloat x) = Inr (PyFloat (- x))"
| "py_neg (PyComplex z) = Inr (PyComplex (- z))"
| "py_neg PyNone = Inl TypeError"

text \<open>
  The real number \<open>x\<close> to the power \<open>p\<close>: the integer power when \<open>p\<close> is integral, and
  \<open>exp (p * ln x)\<close> otherwise.
\<close>

definition real_power :: "real \<Rightarrow> real \<Rightarrow> real" where
  "real_power x p = (if of_int \<lfloor>p\<rfloor> = p then x powi \<lfloor>p\<rfloor> else x powr p)"

text \<open>
  \<open>**\<close> on two \<open>complex\<close> numbers (\<open>complex_pow\<close> of the interpreter): anything to the
  power 0 is 1; 0 to a negative or non-real power raises \<open>ZeroDivisionError\<close>; otherwise
  the result is taken in polar form, and raises \<open>OverflowError\<close> when a component leaves
  the range of a double.
\<close>

definition complex_pow :: "complex \<Rightarrow> complex \<Rightarrow> py_error + pyval" where
  "complex_pow z w =
     (if w = 0 then Inr (PyComplex 1)
      else if z = 0 then
        (if Im w \<noteq> 0 \<or> Re w < 0 then Inl ZeroDivisionError else Inr (PyComplex 0))
      else
        (let r = rcis (exp (Re w * ln (cmod z) - Im w * Arg z))
                      (Re w * Arg z + Im w * ln (cmod z))
         in if double_overflow (Re r) \<or> double_overflow (Im r) then Inl OverflowError
            else Inr (PyComplex r)))"

text \<open>
  \<open>**\<close> on two \<open>float\<close>s (\<open>float_pow\<close> of the interpreter): anything to the power 0 is 1;
  0 to a negative power raises \<open>ZeroDivisionError\<close>; a negative base with a non-integral
  exponent is handed to the \<open>complex\<close> power; a result out of range raises
  \<open>OverflowError\<close>.
\<close>

definition float_pow :: "real \<Rightarrow> real \<Rightarrow> py_error + pyval" where
  "float_pow x y =
     (if y = 0 then Inr (PyFloat 1)
      else if x = 0 then (if y < 0 then Inl ZeroDivisionError else Inr (PyFloat 0))
      else if x < 0 \<and> of_int \<lfloor>y\<rfloor> \<noteq> y then complex_pow (of_real x) (of_real y)
      else if double_overflow (real_power x y) then Inl OverflowError
      else Inr (PyFloat (real_power x y)))"

text \<open>
  \<open>a ** b\<close> on values: exact on two \<open>int\<close>s with a non-negative exponent; with a \<open>complex\<close>
  operand both are converted to \<open>complex\<close>; otherwise (also for two \<open>int\<close>s with a negative
  exponent) both are converted to \<open>float\<close>.
\<close>

fun py_pow :: "pyval \<Rightarrow> pyval \<Rightarrow> py_error + pyval" where
  "py_pow (PyInt i) (PyInt j) =
     (if 0 \<le> j then Inr (PyInt (i ^ nat j))
      else bind_err (to_float (PyInt i)) (\<lambda>x. bind_err (to_float (PyInt j)) (\<lambda>y. float_pow x y)))"
| "py_pow PyNone b = Inl TypeError"
| "py_pow a PyNone = Inl TypeError"
| "py_pow (PyComplex z) b = bind_err (to_complex b) (\<lambda>w. complex_pow z w)"
| "py_pow a (PyComplex w) = bind_err (to_complex a) (\<lambda>z. complex_pow z w)"
| "py_pow a b = bind_err (to_float a) (\<lambda>x. bind_err (to_float b) (\<lambda>y. float_pow x y))"

text \<open>
  \<open>math.exp(a)\<close>: the argument is converted to \<open>float\<close>, and a result out of range raises
  \<open>OverflowError\<close>.
\<close>

definition math_exp :: "pyval \<Rightarrow> py_error + real" where
  "math_exp a =
     bind_err (to_float a)
       (\<lambda>x. if double_overflow (exp x) then Inl OverflowError else Inr (exp x))"

subsection \<open>Construction\<close>

text \<open>
  \<open>Value.__init__\<close>: the new object is allocated at the end of the heap, with \<open>grad = 0.0\<close>.
\<close>

definition Value_init ::
  "(nid list \<Rightarrow> nid list) \<Rightarrow> pyval \<Rightarrow> nid list \<Rightarrow> op_tag \<Rightarrow> heap \<Rightarrow> nid \<times> heap" where
  "Value_init \<sigma> d children tag h =
     (length h,
      h @ [\<lparr>v_data = d, v_grad = PyFloat 0, v_backward = NoOp, v_prev = \<sigma> children,
            v_op = tag\<rparr>])"

text \<open>\<open>Value(x)\<close>, the spec's \<open>create_leaf\<close>.\<close>

definition create_leaf :: "(nid list \<Rightarrow> nid list) \<Rightarrow> pyval \<Rightarrow> heap \<Rightarrow> nid \<times> heap" where
  "create_leaf \<sigma> x h = Value_init \<sigma> x [] OpLeaf h"

text \<open>The assignment \<open>out._backward = _backward\<close>.\<close>

definition set_backward :: "heap \<Rightarrow> nid \<Rightarrow> closure \<Rightarrow> heap" where
  "set_backward h out c = h[out := (h ! out)\<lparr>v_backward := c\<rparr>]"

text \<open>\<open>other = other if isinstance(other, Value) else Value(other)\<close>\<close>

definition wrap_other :: "(nid list \<Rightarrow> nid list) \<Rightarrow> pyobj \<Rightarrow> heap \<Rightarrow> nid \<times> heap" where
  "wrap_other \<sigma> other h = (case other of Ref b \<Rightarrow> (b, h) | Val c \<Rightarrow> create_leaf \<sigma> c h)"

subsection \<open>Operators\<close>

text \<open>
  \<open>Value.__add__\<close>. When \<open>self.data + other.data\<close> raises, a leaf that \<open>Value(other)\<close> has
  allocated stays in the heap, unreachable.
\<close>

definition Value_add ::
  "(nid list \<Rightarrow> nid list) \<Rightarrow> nid \<Rightarrow> pyobj \<Rightarrow> heap \<Rightarrow> (py_error + nid) \<times> heap" where
  "Value_add \<sigma> self other h =
     (case wrap_other \<sigma> other h of
        (b, h1) \<Rightarrow>
          (case py_add (v_data (h1 ! self)) (v_data (h1 ! b)) of
             Inl e \<Rightarrow> (Inl e, h1)
           | Inr d \<Rightarrow>
               (case Value_init \<sigma> d [self, b] OpAdd h1 of
                  (out, h2) \<Rightarrow> (Inr out, set_backward h2 out (AddBack self b out)))))"

text \<open>\<open>Value.__mul__\<close>\<close>

definition Value_mul ::
  "(nid list \<Rightarrow> nid list) \<Rightarrow> nid \<Rightarrow> pyobj \<Rightarrow> heap \<Rightarrow> (py_error + nid) \<times> heap" where
  "Value_mul \<sigma> self other h =
     (case wrap_other \<sigma> other h of
        (b, h1) \<Rightarrow>
          (case py_mul (v_data (h1 ! self)) (v_data (h1 ! b)) of
             Inl e \<Rightarrow> (Inl e, h1)
           | Inr d \<Rightarrow>
               (case Value_init \<sigma> d [self, b] OpMul h1 of
                  (out, h2) \<Rightarrow> (Inr out, set_backward h2 out (MulBack self b out)))))"

text \<open>\<open>isinstance(other, (int, float))\<close>: the exponent when it is one, \<open>None\<close> otherwise.\<close>

fun int_or_float :: "pyobj \<Rightarrow> pyval option" where
  "int_or_float (Val (PyInt j)) = Some (PyInt j)"
| "int_or_float (Val (PyFloat y)) = Some (PyFloat y)"
| "int_or_float (Val (PyComplex w)) = None"
| "int_or_float (Val PyNone) = None"
| "int_or_float (Ref b) = None"

text \<open>\<open>Value.__pow__\<close>: the \<open>assert\<close> comes first, then \<open>self.data ** other\<close>.\<close>

definition Value_pow ::
  "(nid list \<Rightarrow> nid list) \<Rightarrow> nid \<Rightarrow> pyobj \<Rightarrow> heap \<Rightarrow> (py_error + nid) \<times> heap" where
  "Value_pow \<sigma> self other h =
     (case int_or_float other of
        None \<Rightarrow> (Inl AssertionError, h)
      | Some p \<Rightarrow>
          (case py_pow (v_data (h ! self)) p of
             Inl e \<Rightarrow> (Inl e, h)
           | Inr d \<Rightarrow>
               (case Value_init \<sigma> d [self] (OpPow p) h of
                  (out, h1) \<Rightarrow> (Inr out, set_backward h1 out (PowBack self p out)))))"

text \<open>\<open>Value.__rmul__\<close>: \<open>return self * other\<close>\<close>

definition Value_rmul ::
  "(nid list \<Rightarrow> nid list) \<Rightarrow> nid \<Rightarrow> pyobj \<Rightarrow> heap \<Rightarrow> (py_error + nid) \<times> heap" where
  "Value_rmul \<sigma> self other h = Value_mul \<sigma> self other h"

text \<open>
  The expression \<open>other ** -1\<close> inside \<open>__truediv__\<close>: Python dispatches on the left
  operand, to \<open>Value.__pow__\<close> for a \<open>Value\<close> and to the numbers' own power otherwise.
\<close>

definition pow_expr ::
  "(nid list \<Rightarrow> nid list) \<Rightarrow> pyobj \<Rightarrow> pyval \<Rightarrow> heap \<Rightarrow> (py_error + pyobj) \<times> heap" where
  "pow_expr \<sigma> x p h =
     (case x of
        Ref b \<Rightarrow>
          (case Value_pow \<sigma> b (Val p) h of
             (Inl e, h1) \<Rightarrow> (Inl e, h1)
           | (Inr out, h1) \<Rightarrow> (Inr (Ref out), h1))
      | Val c \<Rightarrow> (case py_pow c p of Inl e \<Rightarrow> (Inl e, h) | Inr d \<Rightarrow> (Inr (Val d), h)))"

text \<open>\<open>Value.__truediv__\<close>: \<open>return self * other ** -1\<close>\<close>

definition Value_truediv ::
  "(nid list \<Rightarrow> nid list) \<Rightarrow> nid \<Rightarrow> pyobj \<Rightarrow> heap \<Rightarrow> (py_error + nid) \<times> heap" where
  "Value_truediv \<sigma> self other h =
     (case pow_expr \<sigma> other (PyInt (- 1)) h of
        (Inl e, h1) \<Rightarrow> (Inl e, h1)
      | (Inr r, h1) \<Rightarrow> Value_mul \<sigma> self r h1)"

text \<open>\<open>Value.__neg__\<close>: \<open>return self * - 1\<close>\<close>

definition Value_neg ::
  "(nid list \<Rightarrow> nid list) \<Rightarrow> nid \<Rightarrow> heap \<Rightarrow> (py_error + nid) \<times> heap" where
  "Value_neg \<sigma> self h = Value_mul \<sigma> self (Val (PyInt (- 1))) h"

text \<open>The expression \<open>- other\<close> inside \<open>__sub__\<close>.\<close>

definition neg_expr ::
  "(nid list \<Rightarrow> nid list) \<Rightarrow> pyobj \<Rightarrow> heap \<Rightarrow> (py_error + pyobj) \<times> heap" where
  "neg_expr \<sigma> x h =
     (case x of
        Ref b \<Rightarrow>
          (case Value_neg \<sigma> b h of
             (Inl e, h1) \<Rightarrow> (Inl e, h1)
           | (Inr out, h1) \<Rightarrow> (Inr (Ref out), h1))
      | Val c \<Rightarrow> (case py_neg c of Inl e \<Rightarrow> (Inl e, h) | Inr d \<Rightarrow> (Inr (Val d), h)))"

text \<open>\<open>Value.__sub__\<close>: \<open>return self + (- other)\<close>\<close>

definition Value_sub ::
  "(nid list \<Rightarrow> nid list) \<Rightarrow> nid \<Rightarrow> pyobj \<Rightarrow> heap \<Rightarrow> (py_error + nid) \<times> heap" where
  "Value_sub \<sigma> self other h =
     (case neg_expr \<sigma> other h of
        (Inl e, h1) \<Rightarrow> (Inl e, h1)
      | (Inr r, h1) \<Rightarrow> Value_add \<sigma> self r h1)"

text \<open>
  \<open>Value.tanh\<close>. \<open>math.exp(2 * x)\<close> is a \<open>float\<close> \<open>e\<close>, or raises; the rest is arithmetic on
  floats, \<open>(e - 1) / (e + 1)\<close>, whose divisor is at least 1, so the division cannot raise.
\<close>

definition Value_tanh ::
  "(nid list \<Rightarrow> nid list) \<Rightarrow> nid \<Rightarrow> heap \<Rightarrow> (py_error + nid) \<times> heap" where
  "Value_tanh \<sigma> self h =
     (case bind_err (py_mul (PyInt 2) (v_data (h ! self))) math_exp of
        Inl e \<Rightarrow> (Inl e, h)
      | Inr e \<Rightarrow>
          (let t = (e - 1) / (e + 1)
           in case Value_init \<sigma> (PyFloat t) [self] OpTanh h of
                (out, h1) \<Rightarrow> (Inr out, set_backward h1 out (TanhBack self t out))))"

text \<open>\<open>Value.exp\<close>\<close>

definition Value_exp ::
  "(nid list \<Rightarrow> nid list) \<Rightarrow> nid \<Rightarrow> heap \<Rightarrow> (py_error + nid) \<times> heap" where
  "Value_exp \<sigma> self h =
     (case math_exp (v_data (h ! self)) of
        Inl e \<Rightarrow> (Inl e, h)
      | Inr y \<Rightarrow>
          (case Value_init \<sigma> (PyFloat y) [self] OpExp h of
             (out, h1) \<Rightarrow> (Inr out, set_backward h1 out (ExpBack self out))))"

subsection \<open>Binary expressions with a number on the left\<close>

text \<open>
  For \<open>x + y\<close> Python calls \<open>type(x).__add__\<close>; when that returns \<open>NotImplemented\<close>, as the
  numbers' \<open>__add__\<close> does for a \<open>Value\<close>, or when there is none, it calls
  \<open>type(y).__radd__\<close>, and raises \<open>TypeError\<close> when the class has none. Class \<open>Value\<close>
  defines \<open>__rmul__\<close> and no \<open>__radd__\<close>.
\<close>

definition add_expr ::
  "(nid list \<Rightarrow> nid list) \<Rightarrow> pyobj \<Rightarrow> pyobj \<Rightarrow> heap \<Rightarrow> (py_error + pyobj) \<times> heap" where
  "add_expr \<sigma> x y h =
     (case x of
        Ref a \<Rightarrow>
          (case Value_add \<sigma> a y h of
             (Inl e, h1) \<Rightarrow> (Inl e, h1)
           | (Inr out, h1) \<Rightarrow> (Inr (Ref out), h1))
      | Val c \<Rightarrow>
          (case y of
             Val d \<Rightarrow> (case py_add c d of Inl e \<Rightarrow> (Inl e, h) | Inr s \<Rightarrow> (Inr (Val s), h))
           | Ref b \<Rightarrow> (Inl TypeError, h)))"

definition mul_expr ::
  "(nid list \<Rightarrow> nid list) \<Rightarrow> pyobj \<Rightarrow> pyobj \<Rightarrow> heap \<Rightarrow> (py_error + pyobj) \<times> heap" where
  "mul_expr \<sigma> x y h =
     (case x of
        Ref a \<Rightarrow>
          (case Value_mul \<sigma> a y h of
             (Inl e, h1) \<Rightarrow> (Inl e, h1)
           | (Inr out, h1) \<Rightarrow> (Inr (Ref out), h1))
      | Val c \<Rightarrow>
          (case y of
             Val d \<Rightarrow> (case py_mul c d of Inl e \<Rightarrow> (Inl e, h) | Inr s \<Rightarrow> (Inr (Val s), h))
           | Ref b \<Rightarrow>
               (case Value_rmul \<sigma> b (Val c) h of
                  (Inl e, h1) \<Rightarrow> (Inl e, h1)
                | (Inr out, h1) \<Rightarrow> (Inr (Ref out), h1))))"

subsection \<open>The backward rules\<close>

text \<open>
  \<open>x.grad += E\<close>: the expression \<open>E\<close> is evaluated, added to \<open>x.grad\<close>, and the sum is
  assigned; a raise in either leaves the heap as it was.
\<close>

definition grad_iadd :: "heap \<Rightarrow> nid \<Rightarrow> py_error + pyval \<Rightarrow> (py_error + unit) \<times> heap" where
  "grad_iadd h x E =
     (case bind_err E (py_add (v_grad (h ! x))) of
        Inl e \<Rightarrow> (Inl e, h)
      | Inr g \<Rightarrow> (Inr (), h[x := (h ! x)\<lparr>v_grad := g\<rparr>]))"

text \<open>One statement after another: a raise in the first ends the closure.\<close>

definition then_run ::
  "(py_error + unit) \<times> heap \<Rightarrow> (heap \<Rightarrow> (py_error + unit) \<times> heap) \<Rightarrow> (py_error + unit) \<times> heap"
  where
  "then_run r f = (case r of (Inl e, h1) \<Rightarrow> (Inl e, h1) | (Inr u, h1) \<Rightarrow> f h1)"

text \<open>
  The call \<open>node._backward()\<close>. The second statement of the closures of \<open>__add__\<close> and
  \<open>__mul__\<close> reads the heap the first one left. The expressions are
  \<open>1.0 * out.grad\<close>; \<open>other.data * out.grad\<close> and \<open>self.data * out.grad\<close>;
  \<open>other * self.data ** (other - 1) * out.grad\<close>; \<open>(1 - t ** 2) * out.grad\<close>;
  \<open>out.data * out.grad\<close>.
\<close>

definition call_backward :: "heap \<Rightarrow> nid \<Rightarrow> (py_error + unit) \<times> heap" where
  "call_backward h n =
     (case v_backward (h ! n) of
        NoOp \<Rightarrow> (Inr (), h)
      | AddBack self other out \<Rightarrow>
          then_run (grad_iadd h self (py_mul (PyFloat 1) (v_grad (h ! out))))
            (\<lambda>h1. grad_iadd h1 other (py_mul (PyFloat 1) (v_grad (h1 ! out))))
      | MulBack self other out \<Rightarrow>
          then_run (grad_iadd h self (py_mul (v_data (h ! other)) (v_grad (h ! out))))
            (\<lambda>h1. grad_iadd h1 other (py_mul (v_data (h1 ! self)) (v_grad (h1 ! out))))
      | PowBack self p out \<Rightarrow>
          grad_iadd h self
            (bind_err (py_sub p (PyInt 1)) (\<lambda>q.
             bind_err (py_pow (v_data (h ! self)) q) (\<lambda>w.
             bind_err (py_mul p w) (\<lambda>u.
             py_mul u (v_grad (h ! out))))))
      | TanhBack self t out \<Rightarrow>
          grad_iadd h self
            (bind_err (py_pow (PyFloat t) (PyInt 2)) (\<lambda>s.
             bind_err (py_sub (PyInt 1) s) (\<lambda>u.
             py_mul u (v_grad (h ! out)))))
      | ExpBack self out \<Rightarrow>
          grad_iadd h self (py_mul (v_data (h ! out)) (v_grad (h ! out))))"

subsection \<open>The backward pass\<close>

text \<open>
  The operands of a node. A reference always points to a live object in Python; for an
  index outside the heap, which no Python state has, the model reads no operands.
\<close>

definition prev_of :: "heap \<Rightarrow> nid \<Rightarrow> nid list" where
  "prev_of h v = (if v < length h then v_prev (h ! v) else [])"

text \<open>
  The local function \<open>build_topo\<close> of \<open>Value.backward\<close>, with its two captured variables
  \<open>visited\<close> and \<open>topo\<close> passed as a pair, and its \<open>for child in v._prev\<close> loop.
\<close>

function build_topo :: "heap \<Rightarrow> nid \<Rightarrow> nid set \<times> nid list \<Rightarrow> nid set \<times> nid list"
  and build_topo_for :: "heap \<Rightarrow> nid list \<Rightarrow> nid set \<times> nid list \<Rightarrow> nid set \<times> nid list"
where
  "build_topo h v (visited, topo) =
     (if v \<notin> visited then
        (case build_topo_for h (prev_of h v) (insert v visited, topo) of
           (visited', topo') \<Rightarrow> (visited', topo' @ [v]))
      else (visited, topo))"
| "build_topo_for h [] st = st"
| "build_topo_for h (child # rest) st = build_topo_for h rest (build_topo h child st)"
  by pat_completeness auto

text \<open>
  Termination: every call of \<open>build_topo\<close> on an unvisited node marks one more of the
  finitely many nodes, and the loop gets shorter. The visited set never shrinks.
\<close>

definition heap_ids :: "heap \<Rightarrow> nid set" where
  "heap_ids h = {..<length h} \<union> (\<Union>n \<in> set h. set (v_prev n))"

definition unvisited :: "heap \<Rightarrow> nid set \<Rightarrow> nid set \<Rightarrow> nat" where
  "unvisited h extra visited = card ((heap_ids h \<union> extra) - visited)"

lemma finite_heap_ids: "finite (heap_ids h)"
  by (simp add: heap_ids_def)

lemma prev_of_heap_ids: "set (prev_of h v) \<subseteq> heap_ids h"
  by (auto simp: prev_of_def heap_ids_def)

lemma build_topo_dom_mono:
  "build_topo_build_topo_for_dom (Inl (h, v, st)) \<Longrightarrow> fst st \<subseteq> fst (build_topo h v st)"
  "build_topo_build_topo_for_dom (Inr (h, cs, st)) \<Longrightarrow> fst st \<subseteq> fst (build_topo_for h cs st)"
  by (induct rule: build_topo_build_topo_for.pinduct)
     (auto simp: build_topo.psimps build_topo_for.psimps split: prod.splits)

lemma unvisited_mono:
  "finite extra' \<Longrightarrow> extra \<subseteq> heap_ids h \<union> extra' \<Longrightarrow> visited' \<subseteq> visited
     \<Longrightarrow> unvisited h extra visited \<le> unvisited h extra' visited'"
  unfolding unvisited_def
  by (rule card_mono) (auto simp: finite_heap_ids)

lemma unvisited_less:
  "v \<notin> visited \<Longrightarrow> unvisited h (set (prev_of h v)) (insert v visited) < unvisited h {v} visited"
  unfolding unvisited_def
  using prev_of_heap_ids[of h v]
  by (intro psubset_card_mono) (auto simp: finite_heap_ids)

termination build_topo
proof (relation "(\<lambda>x. case x of
            Inl (h, v, visited, topo) \<Rightarrow> unvisited h {v} visited
          | Inr (h, cs, visited, topo) \<Rightarrow> unvisited h (set cs) visited)
        <*mlex*> measure (\<lambda>x. case x of Inl _ \<Rightarrow> 0 | Inr (h, cs, st) \<Rightarrow> Suc (length cs))",
    goal_cases)
  case 1
  show ?case by (simp add: wf_mlex)
next
  case (2 h v visited topo)
  then show ?case by (simp add: mlex_iff unvisited_less)
next
  case (3 h child rest st)
  obtain visited topo where st: "st = (visited, topo)" by (cases st)
  have "unvisited h {child} visited \<le> unvisited h (set (child # rest)) visited"
    by (rule unvisited_mono) auto
  then show ?case by (auto simp: mlex_iff st)
next
  case (4 h child rest st)
  obtain visited topo where st: "st = (visited, topo)" by (cases st)
  obtain visited' topo' where st': "build_topo h child (visited, topo) = (visited', topo')"
    by (cases "build_topo h child (visited, topo)")
  from build_topo_dom_mono(1)[OF 4] have "visited \<subseteq> visited'" by (simp add: st st')
  then have "unvisited h (set rest) visited' \<le> unvisited h (set (child # rest)) visited"
    by (intro unvisited_mono) auto
  then show ?case by (auto simp: mlex_iff st st')
qed

text \<open>The loop \<open>for node in reversed(topo): node._backward()\<close>; a raise ends it.\<close>

fun run_backward :: "nid list \<Rightarrow> heap \<Rightarrow> (py_error + unit) \<times> heap" where
  "run_backward [] h = (Inr (), h)"
| "run_backward (n # ns) h =
     (case call_backward h n of
        (Inl e, h') \<Rightarrow> (Inl e, h')
      | (Inr u, h') \<Rightarrow> run_backward ns h')"

text \<open>The list \<open>reversed(topo)\<close> that the loop of \<open>backward\<close> walks.\<close>

definition backward_order :: "heap \<Rightarrow> nid \<Rightarrow> nid list" where
  "backward_order h self = rev (snd (build_topo h self ({}, [])))"

text \<open>\<open>Value.backward\<close>: the order is built, then \<open>self.grad = 1.0\<close>, then the loop.\<close>

definition backward :: "heap \<Rightarrow> nid \<Rightarrow> (py_error + unit) \<times> heap" where
  "backward h self =
     (let order = backward_order h self;
          h1 = h[self := (h ! self)\<lparr>v_grad := PyFloat 1\<rparr>]
      in run_backward order h1)"

text \<open>
  The nodes whose \<open>_backward\<close> the loop has called when it ends: all of the list, or, when
  a call raises, the list up to the call that raised.
\<close>

fun invoked :: "nid list \<Rightarrow> heap \<Rightarrow> nid list" where
  "invoked [] h = []"
| "invoked (n # ns) h =
     (case call_backward h n of
        (Inl e, h') \<Rightarrow> [n]
      | (Inr u, h') \<Rightarrow> n # invoked ns h')"

definition backward_invoked :: "heap \<Rightarrow> nid \<Rightarrow> nid list" where
  "backward_invoked h self =
     invoked (backward_order h self) (h[self := (h ! self)\<lparr>v_grad := PyFloat 1\<rparr>])"

subsection \<open>The operand graph\<close>

definition edges :: "heap \<Rightarrow> (nid \<times> nid) set" where
  "edges h = {(v, c). c \<in> set (prev_of h v)}"

definition reachable :: "heap \<Rightarrow> nid \<Rightarrow> nid set" where
  "reachable h t = (edges h)\<^sup>* `` {t}"

text \<open>The nodes whose \<open>grad\<close> a closure assigns.\<close>

fun targets :: "closure \<Rightarrow> nid list" where
  "targets NoOp = []"
| "targets (AddBack self other out) = [self, other]"
| "targets (MulBack self other out) = [self, other]"
| "targets (PowBack self p out) = [self]"
| "targets (TanhBack self t out) = [self]"
| "targets (ExpBack self out) = [self]"

text \<open>
  What every heap built by the operators satisfies: a node's closure assigns only to
  operands of that node, and operands are live objects.
\<close>

definition wf_heap :: "heap \<Rightarrow> bool" where
  "wf_heap h \<longleftrightarrow>
     (\<forall>n < length h. set (targets (v_backward (h ! n))) \<subseteq> set (v_prev (h ! n))
                   \<and> (\<forall>c \<in> set (v_prev (h ! n)). c < length h))"

text \<open>
  The order handed to the loop puts a node before its operands: every operand of a node
  of the list occurs later in the list.
\<close>

fun parents_first :: "heap \<Rightarrow> nid list \<Rightarrow> bool" where
  "parents_first h [] = True"
| "parents_first h (x # xs) = (set (prev_of h x) \<subseteq> set xs \<and> parents_first h xs)"

text \<open>Two heaps that differ in \<open>grad\<close> fields at most.\<close>

definition same_shape :: "heap \<Rightarrow> heap \<Rightarrow> bool" where
  "same_shape h h' \<longleftrightarrow>
     length h' = length h \<and>
     (\<forall>n. v_data (h' ! n) = v_data (h ! n) \<and> v_prev (h' ! n) = v_prev (h ! n)
        \<and> v_op (h' ! n) = v_op (h ! n) \<and> v_backward (h' ! n) = v_backward (h ! n))"

subsection \<open>Invariants of the traversal\<close>

text \<open>
  One call of \<open>build_topo\<close> only adds: the visited set grows, and \<open>topo\<close> is extended by
  exactly the newly visited nodes, each once.
\<close>

definition extends :: "nid set \<times> nid list \<Rightarrow> nid set \<times> nid list \<Rightarrow> bool" where
  "extends st st' \<longleftrightarrow>
     fst st \<subseteq> fst st' \<and>
     (\<exists>new. snd st' = snd st @ new \<and> set new = fst st' - fst st \<and> distinct new)"

text \<open>
  All visited nodes outside \<open>G\<close> (the nodes whose loop is still running) have all their
  operands visited.
\<close>

definition closed_except :: "heap \<Rightarrow> nid set \<Rightarrow> nid set \<Rightarrow> bool" where
  "closed_except h G V \<longleftrightarrow> (\<forall>x \<in> V - G. set (prev_of h x) \<subseteq> V)"

subsection \<open>Operands older than their node\<close>

text \<open>
  Every operand is older than the node that has it. A heap of this kind has no cycle; the
  example heaps built by the operators below are of this kind.
\<close>

definition older_operands :: "heap \<Rightarrow> bool" where
  "older_operands h \<longleftrightarrow> (\<forall>(n, nd) \<in> set (enumerate 0 h). \<forall>c \<in> set (v_prev nd). c < n)"

subsection \<open>Example heaps\<close>

text \<open>\<open>x = Value(0.0); y = x ** 0\<close>\<close>

definition pow_zero_heap :: heap where
  "pow_zero_heap =
     snd (Value_pow remdups 0 (Val (PyInt 0)) (snd (create_leaf remdups (PyFloat 0) [])))"

text \<open>
  The diamond: \<open>a = Value(2.0); c3 = Value(3.0); p = a * c3; c1 = Value(1.0); q = a + c1;
  r = p * q\<close>, allocated in this order at the indices 0 to 5.
\<close>

definition diamond_heap :: heap where
  "diamond_heap =
     snd (Value_mul remdups 2 (Ref 4)
       (snd (Value_add remdups 0 (Ref 3)
         (snd (create_leaf remdups (PyFloat 1)
           (snd (Value_mul remdups 0 (Ref 1)
             (snd (create_leaf remdups (PyFloat 3)
               (snd (create_leaf remdups (PyFloat 2) [])))))))))))"





definition two_leaf_heap :: heap where
  "two_leaf_heap =
     snd (create_leaf remdups (PyFloat 3) (snd (create_leaf remdups (PyFloat 2) [])))"

definition zero_divisor_heap :: heap where
  "zero_divisor_heap =
     snd (create_leaf remdups (PyFloat 0) (snd (create_leaf remdups (PyFloat 1) [])))"

definition tiny_divisor_heap :: heap where
  "tiny_divisor_heap =
     snd (create_leaf remdups (PyFloat (1 / 2 ^ 1060)) (snd (create_leaf remdups (PyFloat 1) [])))"


text \<open>
  A heap with a cycle, which no operator builds: after \<open>x = Value(3.0); y = x * x\<close> the
  assignment \<open>x._prev = {y}\<close> makes each node an operand of the other.
\<close>

definition cyclic_heap :: heap where
  "cyclic_heap =
     [\<lparr>v_data = PyFloat 3, v_grad = PyFloat 0, v_backward = NoOp, v_prev = [1],
        v_op = OpLeaf\<rparr>,
      \<lparr>v_data = PyFloat 9, v_grad = PyFloat 0, v_backward = MulBack 0 0 1, v_prev = [0],
        v_op = OpMul\<rparr>]"

subsection \<open>The derived operators in the words of the specification\<close>

text \<open>
  The specification defines \<open>negate(a)\<close> as \<open>multiply(a, constant(-1))\<close>, \<open>subtract(a, b)\<close> as
  \<open>add(a, negate(b))\<close> and \<open>divide(a, b)\<close> as \<open>multiply(a, power(b, -1))\<close>, where
  \<open>constant\<close> is \<open>create_leaf\<close>, and \<open>multiply\<close>, \<open>add\<close>, \<open>power\<close> are \<open>__mul__\<close>, \<open>__add__\<close>,
  \<open>__pow__\<close> applied to nodes.
\<close>

definition spec_negate ::
  "(nid list \<Rightarrow> nid list) \<Rightarrow> nid \<Rightarrow> heap \<Rightarrow> (py_error + nid) \<times> heap" where
  "spec_negate \<sigma> a h =
     (case create_leaf \<sigma> (PyInt (- 1)) h of (c, h1) \<Rightarrow> Value_mul \<sigma> a (Ref c) h1)"

definition spec_subtract ::
  "(nid list \<Rightarrow> nid list) \<Rightarrow> nid \<Rightarrow> nid \<Rightarrow> heap \<Rightarrow> (py_error + nid) \<times> heap" where
  "spec_subtract \<sigma> a b h =
     (case spec_negate \<sigma> b h of
        (Inl e, h1) \<Rightarrow> (Inl e, h1)
      | (Inr nb, h1) \<Rightarrow> Value_add \<sigma> a (Ref nb) h1)"

definition spec_divide ::
  "(nid list \<Rightarrow> nid list) \<Rightarrow> nid \<Rightarrow> nid \<Rightarrow> heap \<Rightarrow> (py_error + nid) \<times> heap" where
  "spec_divide \<sigma> a b h =
     (case Value_pow \<sigma> b (Val (PyInt (- 1))) h of
        (Inl e, h1) \<Rightarrow> (Inl e, h1)
      | (Inr pb, h1) \<Rightarrow> Value_mul \<sigma> a (Ref pb) h1)"

declare build_topo.simps [simp del]

section \<open>The traversal\<close>

lemma extends_refl: "extends st st"
  by (simp add: extends_def)

lemma extends_trans:
  assumes "extends st1 st2" and "extends st2 st3"
  shows "extends st1 st3"
proof -
  from assms(1) obtain n1 where 1: "fst st1 \<subseteq> fst st2" "snd st2 = snd st1 @ n1"
    "set n1 = fst st2 - fst st1" "distinct n1" by (auto simp: extends_def)
  from assms(2) obtain n2 where 2: "fst st2 \<subseteq> fst st3" "snd st3 = snd st2 @ n2"
    "set n2 = fst st3 - fst st2" "distinct n2" by (auto simp: extends_def)
  have "snd st3 = snd st1 @ (n1 @ n2)" using 1 2 by simp
  moreover have "set (n1 @ n2) = fst st3 - fst st1" using 1 2 by auto
  moreover have "distinct (n1 @ n2)" using 1 2 by auto
  ultimately show ?thesis using 1(1) 2(1) unfolding extends_def by blast
qed

lemma extends_finish:
  assumes "extends (insert v visited, topo) (visited', topo')" and "v \<notin> visited"
  shows "extends (visited, topo) (visited', topo' @ [v])"
proof -
  from assms(1) obtain new where n: "insert v visited \<subseteq> visited'" "topo' = topo @ new"
    "set new = visited' - insert v visited" "distinct new" by (auto simp: extends_def)
  have "topo' @ [v] = topo @ (new @ [v])" using n by simp
  moreover have "set (new @ [v]) = visited' - visited" using n assms(2) by auto
  moreover have "distinct (new @ [v])" using n by auto
  ultimately show ?thesis using n(1) unfolding extends_def fst_conv snd_conv by blast
qed

lemma build_topo_extends:
  "extends st (build_topo h v st)"
  "extends st (build_topo_for h cs st)"
proof (induction h v st and h cs st rule: build_topo_build_topo_for.induct)
  case (1 h v visited topo)
  show ?case
  proof (cases "v \<in> visited")
    case True
    then show ?thesis by (simp add: extends_refl build_topo.simps)
  next
    case False
    obtain visited' topo' where r: "build_topo_for h (prev_of h v) (insert v visited, topo) = (visited', topo')"
      by (cases "build_topo_for h (prev_of h v) (insert v visited, topo)")
    from 1[OF False] r have "extends (insert v visited, topo) (visited', topo')" by simp
    from extends_finish[OF this False] show ?thesis using False r by (simp add: build_topo.simps)
  qed
next
  case (2 h st)
  show ?case by (simp add: extends_refl)
next
  case (3 h child rest st)
  then show ?case by (auto intro: extends_trans)
qed

lemma build_topo_visits:
  "v \<in> fst (build_topo h v st)"
  "set cs \<subseteq> fst (build_topo_for h cs st)"
proof (induction h v st and h cs st rule: build_topo_build_topo_for.induct)
  case (1 h v visited topo)
  show ?case
  proof (cases "v \<in> visited")
    case True
    then show ?thesis by (simp add: build_topo.simps)
  next
    case False
    have "extends (insert v visited, topo) (build_topo_for h (prev_of h v) (insert v visited, topo))"
      by (rule build_topo_extends)
    then show ?thesis using False by (auto simp: extends_def build_topo.simps split: prod.splits)
  qed
next
  case (2 h st)
  show ?case by simp
next
  case (3 h child rest st)
  have "extends (build_topo h child st) (build_topo_for h rest (build_topo h child st))"
    by (rule build_topo_extends)
  with 3 show ?case by (auto simp: extends_def)
qed

lemma build_topo_reachable_only:
  "fst (build_topo h v st) \<subseteq> fst st \<union> (edges h)\<^sup>* `` {v}"
  "fst (build_topo_for h cs st) \<subseteq> fst st \<union> (edges h)\<^sup>* `` set cs"
proof (induction h v st and h cs st rule: build_topo_build_topo_for.induct)
  case (1 h v visited topo)
  show ?case
  proof (cases "v \<in> visited")
    case True
    then show ?thesis by (simp add: build_topo.simps)
  next
    case False
    obtain visited' topo' where r: "build_topo_for h (prev_of h v) (insert v visited, topo) = (visited', topo')"
      by (cases "build_topo_for h (prev_of h v) (insert v visited, topo)")
    have "(edges h)\<^sup>* `` set (prev_of h v) \<subseteq> (edges h)\<^sup>* `` {v}"
      by (auto simp: edges_def intro: converse_rtrancl_into_rtrancl)
    moreover have "visited' \<subseteq> insert v visited \<union> (edges h)\<^sup>* `` set (prev_of h v)"
      using 1[OF False] r by simp
    moreover have "v \<in> (edges h)\<^sup>* `` {v}" by simp
    ultimately have "visited' \<subseteq> visited \<union> (edges h)\<^sup>* `` {v}" by blast
    then show ?thesis using False r by (simp add: build_topo.simps)
  qed
next
  case (2 h st)
  show ?case by simp
next
  case (3 h child rest st)
  then show ?case by (simp add: Image_def) blast
qed

lemma build_topo_closed:
  "\<forall>G. closed_except h G (fst st) \<longrightarrow> closed_except h G (fst (build_topo h v st))"
  "\<forall>G. closed_except h G (fst st) \<longrightarrow> closed_except h G (fst (build_topo_for h cs st))"
proof (induction h v st and h cs st rule: build_topo_build_topo_for.induct)
  case (1 h v visited topo)
  show ?case
  proof (cases "v \<in> visited")
    case True
    then show ?thesis by (simp add: build_topo.simps)
  next
    case False
    obtain visited' topo' where r: "build_topo_for h (prev_of h v) (insert v visited, topo) = (visited', topo')"
      by (cases "build_topo_for h (prev_of h v) (insert v visited, topo)")
    have sub: "set (prev_of h v) \<subseteq> visited'"
      using build_topo_visits(2)[of "prev_of h v" h "(insert v visited, topo)"] r by simp
    show ?thesis
    proof (intro allI impI)
      fix G assume c: "closed_except h G (fst (visited, topo))"
      then have "closed_except h (insert v G) (insert v visited)"
        by (auto simp: closed_except_def)
      with 1[OF False] r have "closed_except h (insert v G) visited'" by simp
      with sub have "closed_except h G visited'" by (auto simp: closed_except_def)
      then show "closed_except h G (fst (build_topo h v (visited, topo)))"
        using False r by (simp add: build_topo.simps)
    qed
  qed
next
  case (2 h st)
  show ?case by simp
next
  case (3 h child rest st)
  then show ?case by simp
qed

lemma closed_reachable:
  assumes "closed_except h {} V" and "t \<in> V"
  shows "(edges h)\<^sup>* `` {t} \<subseteq> V"
proof
  fix x assume "x \<in> (edges h)\<^sup>* `` {t}"
  then have "(t, x) \<in> (edges h)\<^sup>*" by simp
  then show "x \<in> V"
    using assms by (induction rule: rtrancl_induct) (auto simp: closed_except_def edges_def)
qed

lemma build_topo_result:
  assumes "build_topo h t ({}, []) = (V, topo)"
  shows "V = reachable h t" and "set topo = reachable h t" and "distinct topo"
proof -
  have "closed_except h {} (fst ({}, []))" by (simp add: closed_except_def)
  with build_topo_closed(1)[of h "({}, [])" t] assms have "closed_except h {} V"
    by (metis fst_conv)
  moreover have "t \<in> V" using build_topo_visits(1)[of t h "({}, [])"] assms by simp
  ultimately have "(edges h)\<^sup>* `` {t} \<subseteq> V" by (rule closed_reachable)
  moreover have "V \<subseteq> (edges h)\<^sup>* `` {t}"
    using build_topo_reachable_only(1)[of h t "({}, [])"] assms by simp
  ultimately show V: "V = reachable h t" by (simp add: reachable_def)
  have "extends ({}, []) (V, topo)" using build_topo_extends(1)[of "({}, [])" h t] assms by simp
  then show "set topo = reachable h t" and "distinct topo" using V by (auto simp: extends_def)
qed

lemma extends_gray:
  assumes "extends (visited, topo) (visited', topo')" and "set topo \<subseteq> visited"
  shows "set topo' \<subseteq> visited'" and "visited' - set topo' = visited - set topo"
  using assms by (auto simp: extends_def)

lemma build_topo_ordered:
  "acyclic (edges h) \<longrightarrow> set (snd st) \<subseteq> fst st \<longrightarrow>
     (\<forall>g \<in> fst st - set (snd st). (g, v) \<in> (edges h)\<^sup>*) \<longrightarrow>
     parents_first h (rev (snd st)) \<longrightarrow>
     parents_first h (rev (snd (build_topo h v st)))"
  "acyclic (edges h) \<longrightarrow> set (snd st) \<subseteq> fst st \<longrightarrow>
     (\<forall>g \<in> fst st - set (snd st). \<forall>c \<in> set cs. (g, c) \<in> (edges h)\<^sup>*) \<longrightarrow>
     parents_first h (rev (snd st)) \<longrightarrow>
     parents_first h (rev (snd (build_topo_for h cs st)))"
proof (induction h v st and h cs st rule: build_topo_build_topo_for.induct)
  case (1 h v visited topo)
  show ?case
  proof (cases "v \<in> visited")
    case True
    then show ?thesis by (simp add: build_topo.simps)
  next
    case False
    obtain visited' topo' where r: "build_topo_for h (prev_of h v) (insert v visited, topo) = (visited', topo')"
      by (cases "build_topo_for h (prev_of h v) (insert v visited, topo)")
    have res: "build_topo h v (visited, topo) = (visited', topo' @ [v])"
      using False r by (simp add: build_topo.simps)
    have ext: "extends (insert v visited, topo) (visited', topo')"
      using build_topo_extends(2)[of "(insert v visited, topo)" h "prev_of h v"] r by simp
    have sub: "set (prev_of h v) \<subseteq> visited'"
      using build_topo_visits(2)[of "prev_of h v" h "(insert v visited, topo)"] r by simp
    show ?thesis
    proof (intro impI)
      assume ac: "acyclic (edges h)"
        and tv: "set (snd (visited, topo)) \<subseteq> fst (visited, topo)"
        and gr: "\<forall>g \<in> fst (visited, topo) - set (snd (visited, topo)). (g, v) \<in> (edges h)\<^sup>*"
        and pf: "parents_first h (rev (snd (visited, topo)))"
      have tv': "set topo \<subseteq> insert v visited" using tv by auto
      have gr': "\<forall>g \<in> insert v visited - set topo. \<forall>c \<in> set (prev_of h v). (g, c) \<in> (edges h)\<^sup>*"
      proof (intro ballI)
        fix g c assume g: "g \<in> insert v visited - set topo" and c: "c \<in> set (prev_of h v)"
        from c have e: "(v, c) \<in> edges h" by (simp add: edges_def)
        from g gr have "(g, v) \<in> (edges h)\<^sup>*" by auto
        then show "(g, c) \<in> (edges h)\<^sup>*" using e by (rule rtrancl_into_rtrancl)
      qed
      from 1[OF False] r ac tv' gr' pf have pf': "parents_first h (rev topo')" by simp
      have gray: "visited' - set topo' = insert v visited - set topo"
        by (rule extends_gray(2)[OF ext tv'])
      have "set (prev_of h v) \<subseteq> set topo'"
      proof
        fix c assume c: "c \<in> set (prev_of h v)"
        from c have e: "(v, c) \<in> edges h" by (simp add: edges_def)
        show "c \<in> set topo'"
        proof (rule ccontr)
          assume "c \<notin> set topo'"
          with c sub gray have "c \<in> insert v visited - set topo" by auto
          with gr have "(c, v) \<in> (edges h)\<^sup>*" by auto
          with e have "(v, v) \<in> (edges h)\<^sup>+" by (simp add: rtrancl_into_trancl2)
          with ac show False by (simp add: acyclic_def)
        qed
      qed
      with pf' show "parents_first h (rev (snd (build_topo h v (visited, topo))))"
        by (simp add: res)
    qed
  qed
next
  case (2 h st)
  show ?case by simp
next
  case (3 h child rest st)
  show ?case
  proof (intro impI)
    assume ac: "acyclic (edges h)"
      and tv: "set (snd st) \<subseteq> fst st"
      and gr: "\<forall>g \<in> fst st - set (snd st). \<forall>c \<in> set (child # rest). (g, c) \<in> (edges h)\<^sup>*"
      and pf: "parents_first h (rev (snd st))"
    let ?st1 = "build_topo h child st"
    have ext: "extends (fst st, snd st) (fst ?st1, snd ?st1)"
      using build_topo_extends(1)[of st h child] by simp
    from 3(1) ac tv gr pf have pf1: "parents_first h (rev (snd ?st1))" by simp
    have tv1: "set (snd ?st1) \<subseteq> fst ?st1" by (rule extends_gray(1)[OF ext tv])
    have "fst ?st1 - set (snd ?st1) = fst st - set (snd st)" by (rule extends_gray(2)[OF ext tv])
    with gr have gr1: "\<forall>g \<in> fst ?st1 - set (snd ?st1). \<forall>c \<in> set rest. (g, c) \<in> (edges h)\<^sup>*"
      by simp
    from 3(2) ac tv1 gr1 pf1 show "parents_first h (rev (snd (build_topo_for h (child # rest) st)))"
      by simp
  qed
qed

lemma backward_order_distinct: "distinct (backward_order h t)"
  using build_topo_result(3)[of h t] by (cases "build_topo h t ({}, [])") (simp add: backward_order_def)

lemma backward_order_set: "set (backward_order h t) = reachable h t"
  using build_topo_result(2)[of h t] by (cases "build_topo h t ({}, [])") (simp add: backward_order_def)

lemma backward_order_parents_first:
  "acyclic (edges h) \<Longrightarrow> parents_first h (backward_order h t)"
  using build_topo_ordered(1)[of h "({}, [])" t] by (simp add: backward_order_def)

lemma invoked_all: "fst (run_backward ns h) = Inr () \<Longrightarrow> invoked ns h = ns"
  by (induction ns arbitrary: h) (auto split: prod.splits sum.splits)

lemma invoked_prefix: "\<exists>rest. ns = invoked ns h @ rest"
  by (induction ns arbitrary: h) (auto split: prod.splits sum.splits)

section \<open>What a backward pass can change\<close>

lemma same_shape_refl: "same_shape h h"
  by (simp add: same_shape_def)

lemma same_shape_trans: "same_shape h1 h2 \<Longrightarrow> same_shape h2 h3 \<Longrightarrow> same_shape h1 h3"
  by (simp add: same_shape_def)

lemma same_shape_update: "same_shape h (h[x := (h ! x)\<lparr>v_grad := g\<rparr>])"
  unfolding same_shape_def
proof (rule conjI, simp, rule allI)
  fix n
  show "v_data (h[x := (h ! x)\<lparr>v_grad := g\<rparr>] ! n) = v_data (h ! n) \<and>
       v_prev (h[x := (h ! x)\<lparr>v_grad := g\<rparr>] ! n) = v_prev (h ! n) \<and>
       v_op (h[x := (h ! x)\<lparr>v_grad := g\<rparr>] ! n) = v_op (h ! n) \<and>
       v_backward (h[x := (h ! x)\<lparr>v_grad := g\<rparr>] ! n) = v_backward (h ! n)"
  proof (cases "x < length h")
    case True
    then show ?thesis by (cases "x = n") simp_all
  next
    case False
    then have "h[x := (h ! x)\<lparr>v_grad := g\<rparr>] = h" by (simp add: list_update_beyond)
    then show ?thesis by simp
  qed
qed

lemma grad_iadd_shape: "same_shape h (snd (grad_iadd h x E))"
  by (simp add: grad_iadd_def same_shape_update same_shape_refl split: sum.splits)

lemma grad_iadd_other: "m \<noteq> x \<Longrightarrow> snd (grad_iadd h x E) ! m = h ! m"
  by (simp add: grad_iadd_def split: sum.splits)

lemma then_run_shape:
  assumes "same_shape h (snd r)" and "\<And>h1. same_shape h1 (snd (f h1))"
  shows "same_shape h (snd (then_run r f))"
proof (cases r)
  case (Pair res h1)
  show ?thesis
  proof (cases res)
    case (Inl e)
    with Pair assms(1) show ?thesis by (simp add: then_run_def)
  next
    case (Inr u)
    with Pair have "then_run r f = f h1" by (simp add: then_run_def)
    with same_shape_trans[OF _ assms(2)[of h1]] assms(1) Pair show ?thesis by simp
  qed
qed

lemma then_run_other:
  assumes "snd r ! m = h ! m" and "\<And>h1. snd (f h1) ! m = h1 ! m"
  shows "snd (then_run r f) ! m = h ! m"
  using assms by (cases r; cases "fst r") (auto simp: then_run_def)

lemma call_backward_shape: "same_shape h (snd (call_backward h n))"
  by (cases "v_backward (h ! n)")
     (simp_all add: call_backward_def same_shape_refl grad_iadd_shape then_run_shape)

lemma call_backward_frame:
  "m \<notin> set (targets (v_backward (h ! n))) \<Longrightarrow> snd (call_backward h n) ! m = h ! m"
  by (cases "v_backward (h ! n)")
     (simp_all add: call_backward_def grad_iadd_other then_run_other)

lemma run_backward_shape: "same_shape h (snd (run_backward ns h))"
proof (induction ns arbitrary: h)
  case Nil
  show ?case by (simp add: same_shape_refl)
next
  case (Cons n ns)
  obtain r h1 where c: "call_backward h n = (r, h1)" by (cases "call_backward h n")
  have s: "same_shape h h1" using call_backward_shape[of h n] c by simp
  show ?case
  proof (cases r)
    case (Inl e)
    with c s show ?thesis by simp
  next
    case (Inr u)
    with c have "run_backward (n # ns) h = run_backward ns h1" by simp
    with same_shape_trans[OF s Cons.IH[of h1]] show ?thesis by simp
  qed
qed

lemma run_backward_frame:
  "\<forall>n \<in> set ns. set (targets (v_backward (h ! n))) \<subseteq> T \<Longrightarrow> m \<notin> T
     \<Longrightarrow> snd (run_backward ns h) ! m = h ! m"
proof (induction ns arbitrary: h)
  case Nil
  show ?case by simp
next
  case (Cons n ns)
  obtain r h1 where c: "call_backward h n = (r, h1)" by (cases "call_backward h n")
  have s: "same_shape h h1" using call_backward_shape[of h n] c by simp
  from Cons.prems have "m \<notin> set (targets (v_backward (h ! n)))" by auto
  then have f: "h1 ! m = h ! m" using call_backward_frame[of m h n] c by simp
  show ?case
  proof (cases r)
    case (Inl e)
    with c f show ?thesis by simp
  next
    case (Inr u)
    have "\<forall>n \<in> set ns. set (targets (v_backward (h1 ! n))) \<subseteq> T"
      using Cons.prems(1) s by (auto simp: same_shape_def)
    from Cons.IH[OF this Cons.prems(2)] f c Inr show ?thesis by simp
  qed
qed

lemma reachable_valid:
  assumes "wf_heap h" and "t < length h" and "n \<in> reachable h t"
  shows "n < length h"
proof -
  from assms(3) have "(t, n) \<in> (edges h)\<^sup>*" by (simp add: reachable_def)
  then show ?thesis
    using assms(1,2)
    by (induction rule: rtrancl_induct) (auto simp: edges_def prev_of_def wf_heap_def)
qed

lemma targets_descendants:
  assumes "wf_heap h" and "t < length h" and "n \<in> reachable h t"
  shows "set (targets (v_backward (h ! n))) \<subseteq> (edges h)\<^sup>+ `` {t}"
proof
  fix c assume c: "c \<in> set (targets (v_backward (h ! n)))"
  have n: "n < length h" by (rule reachable_valid[OF assms])
  with c assms(1) have "c \<in> set (prev_of h n)" by (auto simp: wf_heap_def prev_of_def)
  then have "(n, c) \<in> edges h" by (simp add: edges_def)
  moreover from assms(3) have "(t, n) \<in> (edges h)\<^sup>*" by (simp add: reachable_def)
  ultimately show "c \<in> (edges h)\<^sup>+ `` {t}" by (auto intro: rtrancl_into_trancl1)
qed

lemma backward_shape: "same_shape h (snd (backward h t))"
  unfolding backward_def Let_def
  by (rule same_shape_trans[OF same_shape_update run_backward_shape])

lemma backward_frame:
  assumes "wf_heap h" and "t < length h" and "m \<notin> (edges h)\<^sup>+ `` {t}"
  shows "snd (backward h t) ! m = h[t := (h ! t)\<lparr>v_grad := PyFloat 1\<rparr>] ! m"
proof -
  let ?h1 = "h[t := (h ! t)\<lparr>v_grad := PyFloat 1\<rparr>]"
  have s: "same_shape h ?h1" by (rule same_shape_update)
  have "\<forall>n \<in> set (backward_order h t). set (targets (v_backward (?h1 ! n))) \<subseteq> (edges h)\<^sup>+ `` {t}"
  proof
    fix n assume "n \<in> set (backward_order h t)"
    then have r: "n \<in> reachable h t" by (simp add: backward_order_set)
    from s have "v_backward (?h1 ! n) = v_backward (h ! n)" by (simp add: same_shape_def)
    with targets_descendants[OF assms(1,2) r]
    show "set (targets (v_backward (?h1 ! n))) \<subseteq> (edges h)\<^sup>+ `` {t}" by simp
  qed
  from run_backward_frame[OF this assms(3)] show ?thesis by (simp add: backward_def Let_def)
qed

section \<open>Arithmetic facts\<close>

lemma overflow_bound: "(2 :: real) ^ 1023 \<le> 2 ^ 1024 - 2 ^ 970"
proof -
  have "(2 :: real) ^ 970 \<le> 2 ^ 1023" by (rule power_increasing) simp_all
  moreover have "(2 :: real) ^ 1024 = 2 * 2 ^ 1023" by simp
  ultimately show ?thesis by linarith
qed

lemma no_overflow_below: "\<bar>x\<bar> \<le> 2 ^ 1023 \<Longrightarrow> \<not> double_overflow x"
proof -
  have "(2 :: real) ^ 970 > 0" by simp
  assume "\<bar>x\<bar> \<le> 2 ^ 1023"
  moreover have "(2 :: real) ^ 1023 < 2 ^ 1024 - 2 ^ 970"
  proof -
    have "(2 :: real) ^ 970 < 2 ^ 1023" by (rule power_strict_increasing) simp_all
    moreover have "(2 :: real) ^ 1024 = 2 * 2 ^ 1023" by simp
    ultimately show ?thesis by linarith
  qed
  ultimately show ?thesis unfolding double_overflow_def by linarith
qed

lemma no_overflow_small: "\<bar>x\<bar> \<le> 1024 \<Longrightarrow> \<not> double_overflow x"
proof -
  assume a: "\<bar>x\<bar> \<le> 1024"
  have "(2 :: real) ^ 10 \<le> 2 ^ 1023" by (rule power_increasing) simp_all
  with a have "\<bar>x\<bar> \<le> 2 ^ 1023" by simp
  then show ?thesis by (rule no_overflow_below)
qed

lemma overflow_above: "2 ^ 1024 \<le> \<bar>x\<bar> \<Longrightarrow> double_overflow x"
  unfolding double_overflow_def
proof -
  assume "2 ^ 1024 \<le> \<bar>x\<bar>"
  moreover have "(2 :: real) ^ 970 > 0" by simp
  ultimately show "2 ^ 1024 - 2 ^ 970 \<le> \<bar>x\<bar>" by linarith
qed

lemmas py_arith_defs = py_add_def py_sub_def py_mul_def bind_err_def

lemma py_add_float [simp]: "py_add (PyFloat x) (PyFloat y) = Inr (PyFloat (x + y))"
  by (simp add: py_arith_defs)

lemma py_sub_float [simp]: "py_sub (PyFloat x) (PyFloat y) = Inr (PyFloat (x - y))"
  by (simp add: py_arith_defs)

lemma py_mul_float [simp]: "py_mul (PyFloat x) (PyFloat y) = Inr (PyFloat (x * y))"
  by (simp add: py_arith_defs)

lemma py_add_int [simp]: "py_add (PyInt i) (PyInt j) = Inr (PyInt (i + j))"
  by (simp add: py_arith_defs)

lemma py_sub_int [simp]: "py_sub (PyInt i) (PyInt j) = Inr (PyInt (i - j))"
  by (simp add: py_arith_defs)

lemma py_mul_int [simp]: "py_mul (PyInt i) (PyInt j) = Inr (PyInt (i * j))"
  by (simp add: py_arith_defs)

lemma no_overflow_small_int: "\<bar>i\<bar> \<le> 1024 \<Longrightarrow> \<not> double_overflow (of_int i)"
proof -
  assume "\<bar>i\<bar> \<le> 1024"
  then have "\<bar>of_int i :: real\<bar> \<le> 1024" by linarith
  then show ?thesis by (rule no_overflow_small)
qed

lemma to_float_small_int: "\<bar>i\<bar> \<le> 1024 \<Longrightarrow> to_float (PyInt i) = Inr (of_int i)"
  by (simp add: no_overflow_small_int)

lemma py_mul_small_int_float:
  "\<bar>i\<bar> \<le> 1024 \<Longrightarrow> py_mul (PyInt i) (PyFloat x) = Inr (PyFloat (of_int i * x))"
  by (simp add: py_arith_defs no_overflow_small_int)

lemma py_mul_float_small_int:
  "\<bar>i\<bar> \<le> 1024 \<Longrightarrow> py_mul (PyFloat x) (PyInt i) = Inr (PyFloat (x * of_int i))"
  by (simp add: py_arith_defs no_overflow_small_int)


section \<open>The operators, evaluated\<close>

lemma Value_init_eq:
  "Value_init \<sigma> d cs tag h =
     (length h,
      h @ [\<lparr>v_data = d, v_grad = PyFloat 0, v_backward = NoOp, v_prev = \<sigma> cs, v_op = tag\<rparr>])"
  by (simp add: Value_init_def)

lemma set_backward_last:
  "set_backward (h @ [n]) (length h) c = h @ [n\<lparr>v_backward := c\<rparr>]"
  by (simp add: set_backward_def)

lemma create_leaf_eq:
  "create_leaf \<sigma> x h =
     (length h,
      h @ [\<lparr>v_data = x, v_grad = PyFloat 0, v_backward = NoOp, v_prev = \<sigma> [], v_op = OpLeaf\<rparr>])"
  by (simp add: create_leaf_def Value_init_eq)

lemma Value_add_Ref:
  "Value_add \<sigma> a (Ref b) h =
     (case py_add (v_data (h ! a)) (v_data (h ! b)) of
        Inl e \<Rightarrow> (Inl e, h)
      | Inr d \<Rightarrow>
          (Inr (length h),
           h @ [\<lparr>v_data = d, v_grad = PyFloat 0, v_backward = AddBack a b (length h),
                 v_prev = \<sigma> [a, b], v_op = OpAdd\<rparr>]))"
  by (simp add: Value_add_def wrap_other_def Value_init_eq set_backward_last split: sum.splits)

lemma Value_mul_Ref:
  "Value_mul \<sigma> a (Ref b) h =
     (case py_mul (v_data (h ! a)) (v_data (h ! b)) of
        Inl e \<Rightarrow> (Inl e, h)
      | Inr d \<Rightarrow>
          (Inr (length h),
           h @ [\<lparr>v_data = d, v_grad = PyFloat 0, v_backward = MulBack a b (length h),
                 v_prev = \<sigma> [a, b], v_op = OpMul\<rparr>]))"
  by (simp add: Value_mul_def wrap_other_def Value_init_eq set_backward_last split: sum.splits)

lemma Value_add_Val:
  "Value_add \<sigma> a (Val c) h = Value_add \<sigma> a (Ref (length h)) (snd (create_leaf \<sigma> c h))"
  by (simp add: Value_add_def wrap_other_def create_leaf_eq)

lemma Value_mul_Val:
  "Value_mul \<sigma> a (Val c) h = Value_mul \<sigma> a (Ref (length h)) (snd (create_leaf \<sigma> c h))"
  by (simp add: Value_mul_def wrap_other_def create_leaf_eq)

lemma Value_pow_exponent:
  "int_or_float other = Some p \<Longrightarrow>
   Value_pow \<sigma> a other h =
     (case py_pow (v_data (h ! a)) p of
        Inl e \<Rightarrow> (Inl e, h)
      | Inr d \<Rightarrow>
          (Inr (length h),
           h @ [\<lparr>v_data = d, v_grad = PyFloat 0, v_backward = PowBack a p (length h),
                 v_prev = \<sigma> [a], v_op = OpPow p\<rparr>]))"
  by (simp add: Value_pow_def Value_init_eq set_backward_last split: sum.splits)

lemma Value_tanh_eq:
  "Value_tanh \<sigma> a h =
     (case bind_err (py_mul (PyInt 2) (v_data (h ! a))) math_exp of
        Inl e \<Rightarrow> (Inl e, h)
      | Inr e \<Rightarrow>
          (Inr (length h),
           h @ [\<lparr>v_data = PyFloat ((e - 1) / (e + 1)), v_grad = PyFloat 0,
                 v_backward = TanhBack a ((e - 1) / (e + 1)) (length h),
                 v_prev = \<sigma> [a], v_op = OpTanh\<rparr>]))"
  by (simp add: Value_tanh_def Value_init_eq set_backward_last Let_def split: sum.splits)

lemma Value_exp_eq:
  "Value_exp \<sigma> a h =
     (case math_exp (v_data (h ! a)) of
        Inl e \<Rightarrow> (Inl e, h)
      | Inr y \<Rightarrow>
          (Inr (length h),
           h @ [\<lparr>v_data = PyFloat y, v_grad = PyFloat 0, v_backward = ExpBack a (length h),
                 v_prev = \<sigma> [a], v_op = OpExp\<rparr>]))"
  by (simp add: Value_exp_def Value_init_eq set_backward_last split: sum.splits)

lemma set_order_remdups: "set_order remdups"
  by (simp add: set_order_def)

lemma set_order_Nil: "set_order \<sigma> \<Longrightarrow> \<sigma> [] = []"
  using set_empty[of "\<sigma> []"] by (simp add: set_order_def)

lemma distinct_set_single: "set xs = {a} \<Longrightarrow> distinct xs \<Longrightarrow> xs = [a]"
  by (cases xs; cases "tl xs") auto

lemma distinct_set_pair:
  "set xs = {a, b} \<Longrightarrow> distinct xs \<Longrightarrow> a \<noteq> b \<Longrightarrow> xs = [a, b] \<or> xs = [b, a]"
proof -
  assume s: "set xs = {a, b}" and d: "distinct xs" and ne: "a \<noteq> b"
  from s obtain x ys where xs: "xs = x # ys" by (cases xs) auto
  from d xs have x: "x \<notin> set ys" and dy: "distinct ys" by auto
  from s xs have ins: "insert x (set ys) = {a, b}" by simp
  then have "x = a \<or> x = b" by auto
  then show ?thesis
  proof
    assume "x = a"
    with ins x ne have "set ys = {b}" by auto
    then have "ys = [b]" using dy by (rule distinct_set_single)
    with xs \<open>x = a\<close> show ?thesis by simp
  next
    assume "x = b"
    with ins x ne have "set ys = {a}" by auto
    then have "ys = [a]" using dy by (rule distinct_set_single)
    with xs \<open>x = b\<close> show ?thesis by simp
  qed
qed

lemma set_order_single: "set_order \<sigma> \<Longrightarrow> \<sigma> [a] = [a]"
  by (rule distinct_set_single) (simp_all add: set_order_def)

lemma set_order_same: "set_order \<sigma> \<Longrightarrow> \<sigma> [a, a] = [a]"
  by (rule distinct_set_single) (simp_all add: set_order_def)

lemma set_order_pair: "set_order \<sigma> \<Longrightarrow> a \<noteq> b \<Longrightarrow> \<sigma> [a, b] = [a, b] \<or> \<sigma> [a, b] = [b, a]"
  by (rule distinct_set_pair) (simp_all add: set_order_def)

lemmas eval_backward = backward_def backward_order_def build_topo.simps prev_of_def
  call_backward_def grad_iadd_def then_run_def bind_err_def nth_append Let_def

lemma py_pow_float_small_int:
  "\<bar>j\<bar> \<le> 1024 \<Longrightarrow> py_pow (PyFloat x) (PyInt j) = float_pow x (of_int j)"
  by (simp add: bind_err_def no_overflow_small_int)

lemma no_overflow_zero [simp]: "\<not> double_overflow 0"
  by (simp add: double_overflow_def)

lemma no_overflow_minus_one [simp]: "\<not> double_overflow (- 1)"
  by (simp add: no_overflow_small)

lemma no_overflow_one [simp]: "\<not> double_overflow 1"
  by (simp add: no_overflow_small)


lemma older_operands_edges: "older_operands h \<Longrightarrow> (v, c) \<in> edges h \<Longrightarrow> c < v"
proof -
  assume o: "older_operands h" and e: "(v, c) \<in> edges h"
  from e have v: "v < length h" and c: "c \<in> set (v_prev (h ! v))"
    by (auto simp: edges_def prev_of_def split: if_splits)
  from v have "(v, h ! v) \<in> set (enumerate 0 h)" by (simp add: in_set_enumerate_eq)
  with o c show "c < v" unfolding older_operands_def by blast
qed

lemma older_operands_acyclic: "older_operands h \<Longrightarrow> acyclic (edges h)"
proof -
  assume o: "older_operands h"
  then have "edges h \<subseteq> {(x, y). y < x}" by (auto dest: older_operands_edges)
  moreover have "acyclic {(x :: nat, y). y < x}"
    using wf_acyclic[OF wf_less] acyclic_converse[of "{(x :: nat, y). x < y}"]
    by (simp add: converse_unfold)
  ultimately show ?thesis by (rule acyclic_subset[rotated])
qed

lemma diamond_heap_eq:
  "diamond_heap =
     [\<lparr>v_data = PyFloat 2, v_grad = PyFloat 0, v_backward = NoOp, v_prev = [], v_op = OpLeaf\<rparr>,
      \<lparr>v_data = PyFloat 3, v_grad = PyFloat 0, v_backward = NoOp, v_prev = [], v_op = OpLeaf\<rparr>,
      \<lparr>v_data = PyFloat 6, v_grad = PyFloat 0, v_backward = MulBack 0 1 2, v_prev = [0, 1],
        v_op = OpMul\<rparr>,
      \<lparr>v_data = PyFloat 1, v_grad = PyFloat 0, v_backward = NoOp, v_prev = [], v_op = OpLeaf\<rparr>,
      \<lparr>v_data = PyFloat 3, v_grad = PyFloat 0, v_backward = AddBack 0 3 4, v_prev = [0, 3],
        v_op = OpAdd\<rparr>,
      \<lparr>v_data = PyFloat 18, v_grad = PyFloat 0, v_backward = MulBack 2 4 5, v_prev = [2, 4],
        v_op = OpMul\<rparr>]"
  by (simp add: diamond_heap_def create_leaf_eq Value_mul_Ref Value_add_Ref)

lemma pow_zero_heap_eq:
  "pow_zero_heap =
     [\<lparr>v_data = PyFloat 0, v_grad = PyFloat 0, v_backward = NoOp, v_prev = [], v_op = OpLeaf\<rparr>,
      \<lparr>v_data = PyFloat 1, v_grad = PyFloat 0, v_backward = PowBack 0 (PyInt 0) 1, v_prev = [0],
        v_op = OpPow (PyInt 0)\<rparr>]"
  by (simp add: pow_zero_heap_def create_leaf_eq Value_pow_exponent bind_err_def float_pow_def)

lemma diamond_older: "older_operands diamond_heap"
  by (simp add: diamond_heap_eq older_operands_def)

lemma diamond_backward:
  "backward diamond_heap 5 = (Inr (),
     [\<lparr>v_data = PyFloat 2, v_grad = PyFloat 15, v_backward = NoOp, v_prev = [], v_op = OpLeaf\<rparr>,
      \<lparr>v_data = PyFloat 3, v_grad = PyFloat 6, v_backward = NoOp, v_prev = [], v_op = OpLeaf\<rparr>,
      \<lparr>v_data = PyFloat 6, v_grad = PyFloat 3, v_backward = MulBack 0 1 2, v_prev = [0, 1],
        v_op = OpMul\<rparr>,
      \<lparr>v_data = PyFloat 1, v_grad = PyFloat 6, v_backward = NoOp, v_prev = [], v_op = OpLeaf\<rparr>,
      \<lparr>v_data = PyFloat 3, v_grad = PyFloat 6, v_backward = AddBack 0 3 4, v_prev = [0, 3],
        v_op = OpAdd\<rparr>,
      \<lparr>v_data = PyFloat 18, v_grad = PyFloat 1, v_backward = MulBack 2 4 5, v_prev = [2, 4],
        v_op = OpMul\<rparr>])"
  by (simp add: diamond_heap_eq eval_backward)

lemma diamond_order: "backward_order diamond_heap 5 = [5, 4, 3, 2, 1, 0]"
  by (simp add: diamond_heap_eq eval_backward)

lemma backward_order_starts: "\<exists>rest. backward_order h t = t # rest"
proof -
  obtain v tp where "build_topo_for h (prev_of h t) ({t}, []) = (v, tp)" by (cases "build_topo_for h (prev_of h t) ({t}, [])")
  then show ?thesis by (simp add: backward_order_def build_topo.simps)
qed

lemma run_backward_Cons:
  "run_backward (n # ns) h = then_run (call_backward h n) (run_backward ns)"
  by (simp add: then_run_def split: prod.splits sum.splits)

lemma cyclic_heap_cycle: "\<not> acyclic (edges cyclic_heap)"
proof -
  have "(0, 1) \<in> edges cyclic_heap" and "(1, 0) \<in> edges cyclic_heap"
    by (simp_all add: edges_def prev_of_def cyclic_heap_def)
  then have "(0, 0) \<in> (edges cyclic_heap)\<^sup>+" by (rule trancl_into_trancl[OF r_into_trancl])
  then show ?thesis by (auto simp: acyclic_def)
qed

lemma cyclic_heap_backward:
  "backward cyclic_heap (Suc 0) = (Inr (),
     [\<lparr>v_data = PyFloat 3, v_grad = PyFloat 6, v_backward = NoOp, v_prev = [1], v_op = OpLeaf\<rparr>,
      \<lparr>v_data = PyFloat 9, v_grad = PyFloat 1, v_backward = MulBack 0 0 1, v_prev = [0],
        v_op = OpMul\<rparr>])"
  by (simp add: cyclic_heap_def eval_backward)

lemma cyclic_heap_order: "backward_order cyclic_heap (Suc 0) = [Suc 0, 0]"
  by (simp add: cyclic_heap_def eval_backward)

section \<open>The operators build well-formed heaps\<close>

lemma wf_heap_Nil: "wf_heap []"
  by (simp add: wf_heap_def)

lemma wf_heap_snoc:
  assumes "wf_heap h" and "set (targets (v_backward n)) \<subseteq> set (v_prev n)"
    and "\<forall>c \<in> set (v_prev n). c < length h"
  shows "wf_heap (h @ [n])"
  unfolding wf_heap_def
proof (intro allI impI)
  fix m assume m: "m < length (h @ [n])"
  show "set (targets (v_backward ((h @ [n]) ! m))) \<subseteq> set (v_prev ((h @ [n]) ! m)) \<and>
        (\<forall>c\<in>set (v_prev ((h @ [n]) ! m)). c < length (h @ [n]))"
  proof (cases "m < length h")
    case True
    with assms(1) show ?thesis by (auto simp: wf_heap_def nth_append less_Suc_eq)
  next
    case False
    with m have "m = length h" by simp
    with assms(2,3) show ?thesis by (auto simp: less_Suc_eq)
  qed
qed

lemma create_leaf_wf: "set_order \<sigma> \<Longrightarrow> wf_heap h \<Longrightarrow> wf_heap (snd (create_leaf \<sigma> x h))"
  by (simp add: create_leaf_eq wf_heap_snoc set_order_Nil)

lemma Value_add_Ref_wf:
  "set_order \<sigma> \<Longrightarrow> wf_heap h \<Longrightarrow> a < length h \<Longrightarrow> b < length h
     \<Longrightarrow> wf_heap (snd (Value_add \<sigma> a (Ref b) h))"
  by (simp add: Value_add_Ref wf_heap_snoc set_order_def split: sum.splits)

lemma Value_mul_Ref_wf:
  "set_order \<sigma> \<Longrightarrow> wf_heap h \<Longrightarrow> a < length h \<Longrightarrow> b < length h
     \<Longrightarrow> wf_heap (snd (Value_mul \<sigma> a (Ref b) h))"
  by (simp add: Value_mul_Ref wf_heap_snoc set_order_def split: sum.splits)

lemma Value_add_wf:
  assumes "set_order \<sigma>" and "wf_heap h" and "a < length h"
    and "\<forall>b. other = Ref b \<longrightarrow> b < length h"
  shows "wf_heap (snd (Value_add \<sigma> a other h))"
proof (cases other)
  case (Val c)
  have "wf_heap (snd (create_leaf \<sigma> c h))" by (rule create_leaf_wf[OF assms(1,2)])
  then have "wf_heap (snd (Value_add \<sigma> a (Ref (length h)) (snd (create_leaf \<sigma> c h))))"
    using assms(3) by (intro Value_add_Ref_wf[OF assms(1)]) (simp_all add: create_leaf_eq)
  with Val show ?thesis by (simp add: Value_add_Val)
next
  case (Ref b)
  with assms show ?thesis by (simp add: Value_add_Ref_wf)
qed

lemma Value_mul_wf:
  assumes "set_order \<sigma>" and "wf_heap h" and "a < length h"
    and "\<forall>b. other = Ref b \<longrightarrow> b < length h"
  shows "wf_heap (snd (Value_mul \<sigma> a other h))"
proof (cases other)
  case (Val c)
  have "wf_heap (snd (create_leaf \<sigma> c h))" by (rule create_leaf_wf[OF assms(1,2)])
  then have "wf_heap (snd (Value_mul \<sigma> a (Ref (length h)) (snd (create_leaf \<sigma> c h))))"
    using assms(3) by (intro Value_mul_Ref_wf[OF assms(1)]) (simp_all add: create_leaf_eq)
  with Val show ?thesis by (simp add: Value_mul_Val)
next
  case (Ref b)
  with assms show ?thesis by (simp add: Value_mul_Ref_wf)
qed

lemma Value_pow_wf:
  assumes "set_order \<sigma>" and "wf_heap h" and "a < length h"
  shows "wf_heap (snd (Value_pow \<sigma> a other h))"
proof (cases "int_or_float other")
  case None
  with assms(2) show ?thesis by (simp add: Value_pow_def)
next
  case (Some p)
  with assms show ?thesis
    by (auto simp: Value_pow_exponent set_order_single intro!: wf_heap_snoc split: sum.splits)
qed

lemma Value_tanh_wf:
  "set_order \<sigma> \<Longrightarrow> wf_heap h \<Longrightarrow> a < length h \<Longrightarrow> wf_heap (snd (Value_tanh \<sigma> a h))"
  by (simp add: Value_tanh_eq wf_heap_snoc set_order_single split: sum.splits)

lemma Value_exp_wf:
  "set_order \<sigma> \<Longrightarrow> wf_heap h \<Longrightarrow> a < length h \<Longrightarrow> wf_heap (snd (Value_exp \<sigma> a h))"
  by (simp add: Value_exp_eq wf_heap_snoc set_order_single split: sum.splits)

lemma same_shape_wf: "same_shape h h' \<Longrightarrow> wf_heap h \<Longrightarrow> wf_heap h'"
  by (simp add: same_shape_def wf_heap_def)

lemma backward_wf: "wf_heap h \<Longrightarrow> wf_heap (snd (backward h t))"
  by (rule same_shape_wf[OF backward_shape])

lemma Value_neg_wf:
  "set_order \<sigma> \<Longrightarrow> wf_heap h \<Longrightarrow> a < length h \<Longrightarrow> wf_heap (snd (Value_neg \<sigma> a h))"
  by (simp add: Value_neg_def Value_mul_wf)

lemma Value_rmul_wf:
  "set_order \<sigma> \<Longrightarrow> wf_heap h \<Longrightarrow> a < length h \<Longrightarrow> \<forall>b. other = Ref b \<longrightarrow> b < length h
     \<Longrightarrow> wf_heap (snd (Value_rmul \<sigma> a other h))"
  by (simp add: Value_rmul_def Value_mul_wf)

lemma Value_sub_Ref_wf:
  assumes "set_order \<sigma>" and "wf_heap h" and "a < length h" and "b < length h"
  shows "wf_heap (snd (Value_sub \<sigma> a (Ref b) h))"
proof -
  obtain r h1 where n: "Value_neg \<sigma> b h = (r, h1)" by (cases "Value_neg \<sigma> b h")
  have w: "wf_heap h1" using Value_neg_wf[OF assms(1,2,4)] n by simp
  show ?thesis
  proof (cases r)
    case (Inl e)
    with w n show ?thesis by (simp add: Value_sub_def neg_expr_def)
  next
    case (Inr out)
    with n have o: "out = Suc (length h)" and l: "length h1 = Suc (Suc (length h))"
      by (auto simp: Value_neg_def Value_mul_Val Value_mul_Ref create_leaf_eq split: sum.splits)
    have "wf_heap (snd (Value_add \<sigma> a (Ref (Suc (length h))) h1))"
      using assms(3) l w by (intro Value_add_Ref_wf[OF assms(1)]) simp_all
    with n Inr o show ?thesis by (simp add: Value_sub_def neg_expr_def)
  qed
qed

lemma Value_truediv_Ref_wf:
  assumes "set_order \<sigma>" and "wf_heap h" and "a < length h" and "b < length h"
  shows "wf_heap (snd (Value_truediv \<sigma> a (Ref b) h))"
proof -
  obtain r h1 where p: "Value_pow \<sigma> b (Val (PyInt (- 1))) h = (r, h1)"
    by (cases "Value_pow \<sigma> b (Val (PyInt (- 1))) h")
  have w: "wf_heap h1" using Value_pow_wf[OF assms(1,2,4), of "Val (PyInt (- 1))"] p by simp
  show ?thesis
  proof (cases r)
    case (Inl e)
    with w p show ?thesis by (simp add: Value_truediv_def pow_expr_def)
  next
    case (Inr out)
    with p have o: "out = length h" and l: "length h1 = Suc (length h)"
      by (auto simp: Value_pow_exponent split: sum.splits)
    have "wf_heap (snd (Value_mul \<sigma> a (Ref (length h)) h1))"
      using assms(3) l w by (intro Value_mul_Ref_wf[OF assms(1)]) simp_all
    with p Inr o show ?thesis by (simp add: Value_truediv_def pow_expr_def)
  qed
qed

lemma diamond_wf: "wf_heap diamond_heap"
  unfolding diamond_heap_def
  by (intro Value_mul_Ref_wf Value_add_Ref_wf create_leaf_wf set_order_remdups wf_heap_Nil)
     (simp_all add: create_leaf_eq Value_mul_Ref Value_add_Ref)

section \<open>The example heaps, evaluated\<close>

lemma diamond_backward_p:
  "backward diamond_heap 2 = (Inr (),
     [\<lparr>v_data = PyFloat 2, v_grad = PyFloat 3, v_backward = NoOp, v_prev = [], v_op = OpLeaf\<rparr>,
      \<lparr>v_data = PyFloat 3, v_grad = PyFloat 2, v_backward = NoOp, v_prev = [], v_op = OpLeaf\<rparr>,
      \<lparr>v_data = PyFloat 6, v_grad = PyFloat 1, v_backward = MulBack 0 1 2, v_prev = [0, 1],
        v_op = OpMul\<rparr>,
      \<lparr>v_data = PyFloat 1, v_grad = PyFloat 0, v_backward = NoOp, v_prev = [], v_op = OpLeaf\<rparr>,
      \<lparr>v_data = PyFloat 3, v_grad = PyFloat 0, v_backward = AddBack 0 3 4, v_prev = [0, 3],
        v_op = OpAdd\<rparr>,
      \<lparr>v_data = PyFloat 18, v_grad = PyFloat 0, v_backward = MulBack 2 4 5, v_prev = [2, 4],
        v_op = OpMul\<rparr>])"
  by (simp add: diamond_heap_eq eval_backward)

lemma diamond_reachable_p: "reachable diamond_heap 2 = {0, 1, 2}"
proof -
  have "set (backward_order diamond_heap 2) = {0, 1, 2}"
    by (auto simp: diamond_heap_eq eval_backward)
  then show ?thesis by (simp add: backward_order_set)
qed

lemma zero_divisor_heap_eq:
  "zero_divisor_heap =
     [\<lparr>v_data = PyFloat 1, v_grad = PyFloat 0, v_backward = NoOp, v_prev = [], v_op = OpLeaf\<rparr>,
      \<lparr>v_data = PyFloat 0, v_grad = PyFloat 0, v_backward = NoOp, v_prev = [], v_op = OpLeaf\<rparr>]"
  by (simp add: zero_divisor_heap_def create_leaf_eq)

lemma scalar_operand_supported:
  assumes "v < length h"
  shows "py_add (v_data (h ! v)) c = Inr d \<Longrightarrow>
         \<exists>out h'. add_expr \<sigma> (Ref v) (Val c) h = (Inr (Ref out), h') \<and> v_data (h' ! out) = d"
    and "py_mul (v_data (h ! v)) c = Inr d \<Longrightarrow>
         \<exists>out h'. mul_expr \<sigma> (Ref v) (Val c) h = (Inr (Ref out), h') \<and> v_data (h' ! out) = d"
    and "py_mul (v_data (h ! v)) c = Inr d \<Longrightarrow>
         \<exists>out h'. mul_expr \<sigma> (Val c) (Ref v) h = (Inr (Ref out), h') \<and> v_data (h' ! out) = d"
  using assms
  by (simp_all add: add_expr_def mul_expr_def Value_rmul_def Value_add_Val Value_mul_Val
      Value_add_Ref Value_mul_Ref create_leaf_eq nth_append)

section \<open>Powers and exponentials\<close>

lemma real_power_int: "real_power x (of_int n) = x powi n"
  by (simp add: real_power_def)

lemma real_power_zero [simp]: "real_power x 0 = 1"
  using real_power_int[of x 0] by simp

lemma real_power_minus_one: "x \<noteq> 0 \<Longrightarrow> real_power x (- 1) = 1 / x"
  using real_power_int[of x "- 1"] by (simp add: power_int_minus field_simps)


lemma real_power_zero_base: "0 < q \<Longrightarrow> real_power 0 q = 0"
proof (cases "of_int \<lfloor>q\<rfloor> = q")
  case True
  assume "0 < q"
  with True have "\<lfloor>q\<rfloor> \<noteq> 0" by linarith
  then have "(0 :: real) powi \<lfloor>q\<rfloor> = 0" by (rule power_int_0_left)
  with True show ?thesis unfolding real_power_def by metis
next
  case False
  then show ?thesis unfolding real_power_def by simp
qed




lemma float_pow_real:
  assumes "x \<noteq> 0 \<or> 0 \<le> q" and "0 \<le> x \<or> of_int \<lfloor>q\<rfloor> = q"
    and "\<not> double_overflow (real_power x q)"
  shows "float_pow x q = Inr (PyFloat (real_power x q))"
proof (cases "q = 0")
  case True
  then show ?thesis by (simp add: float_pow_def)
next
  case q: False
  show ?thesis
  proof (cases "x = 0")
    case True
    with q assms(1) have "0 < q" by simp
    with True show ?thesis by (simp add: float_pow_def real_power_zero_base)
  next
    case False
    with q assms(2,3) show ?thesis unfolding float_pow_def by auto
  qed
qed

lemma float_pow_overflow:
  assumes "x \<noteq> 0" and "0 \<le> x \<or> of_int \<lfloor>q\<rfloor> = q" and "double_overflow (real_power x q)"
  shows "float_pow x q = Inl OverflowError"
proof -
  from assms(3) have "q \<noteq> 0" by auto
  with assms show ?thesis unfolding float_pow_def by auto
qed







lemma two_leaf_heap_eq:
  "two_leaf_heap =
     [\<lparr>v_data = PyFloat 2, v_grad = PyFloat 0, v_backward = NoOp, v_prev = [], v_op = OpLeaf\<rparr>,
      \<lparr>v_data = PyFloat 3, v_grad = PyFloat 0, v_backward = NoOp, v_prev = [], v_op = OpLeaf\<rparr>]"
  by (simp add: two_leaf_heap_def create_leaf_eq)




lemma py_mul_minus_one: "py_neg d = Inr nd \<Longrightarrow> py_mul d (PyInt (- 1)) = Inr nd"
  by (cases d) (auto simp: py_mul_def bind_err_def)

lemma double_overflow_minus [simp]: "double_overflow (- x) = double_overflow x"
  by (simp add: double_overflow_def)

lemma py_sub_as_add:
  "py_sub u v = Inr d \<Longrightarrow> \<exists>nv. py_mul v (PyInt (- 1)) = Inr nv \<and> py_add u nv = Inr d"
  by (cases u; cases v)
     (auto simp: py_sub_def py_mul_def py_add_def bind_err_def split: if_splits)

lemma tiny_divisor_heap_eq:
  "tiny_divisor_heap =
     [\<lparr>v_data = PyFloat 1, v_grad = PyFloat 0, v_backward = NoOp, v_prev = [], v_op = OpLeaf\<rparr>,
      \<lparr>v_data = PyFloat (1 / 2 ^ 1060), v_grad = PyFloat 0, v_backward = NoOp, v_prev = [],
        v_op = OpLeaf\<rparr>]"
  by (simp add: tiny_divisor_heap_def create_leaf_eq)

lemma tiny_inverse_overflow: "double_overflow (real_power (1 / 2 ^ 1060) (- 1))"
proof -
  have "(2 :: real) ^ 1024 \<le> 2 ^ 1060" by (intro power_increasing) simp_all
  then have "(2 :: real) ^ 1024 \<le> \<bar>2 ^ 1060\<bar>" by simp
  then have "double_overflow (2 ^ 1060)" by (rule overflow_above)
  moreover have "real_power (1 / 2 ^ 1060) (- 1) = 2 ^ 1060"
    by (subst real_power_minus_one) simp_all
  ultimately show ?thesis by simp
qed

lemma Value_truediv_float:
  assumes "b < length h" and "v_data (h ! b) = PyFloat y"
  shows "Value_truediv \<sigma> a (Ref b) h =
     (case float_pow y (- 1) of
        Inl e \<Rightarrow> (Inl e, h)
      | Inr d \<Rightarrow>
          Value_mul \<sigma> a (Ref (length h))
            (h @ [\<lparr>v_data = d, v_grad = PyFloat 0, v_backward = PowBack b (PyInt (- 1)) (length h),
                   v_prev = \<sigma> [b], v_op = OpPow (PyInt (- 1))\<rparr>]))"
  using assms
  by (simp add: Value_truediv_def pow_expr_def Value_pow_exponent bind_err_def split: sum.splits)




lemma no_overflow_two [simp]: "\<not> double_overflow 2"
  by (simp add: no_overflow_small)




section \<open>Claims\<close>

text \<open>
  C1. Gradient accumulation on a shared node is additive. After \<open>a = Value(3.0)\<close>,
  \<open>b = a * a\<close>, \<open>b.backward()\<close> the gradient of \<open>a\<close> is 6.0; after the diamond
  \<open>a = Value(2.0)\<close>, \<open>p = a * Value(3.0)\<close>, \<open>q = a + Value(1.0)\<close>, \<open>r = p * q\<close>,
  \<open>r.backward()\<close> the gradient of \<open>a\<close> is 15.0. This holds from any heap \<open>h\<close> and for any
  iteration order of the operand sets.
\<close>

theorem shared_gradient_accumulates:
  assumes s: "set_order \<sigma>"
  shows "(\<exists>a h1 b h2 h3.
            create_leaf \<sigma> (PyFloat 3) h = (a, h1) \<and> Value_mul \<sigma> a (Ref a) h1 = (Inr b, h2)
          \<and> backward h2 b = (Inr (), h3) \<and> v_grad (h3 ! a) = PyFloat 6)
       \<and> (\<exists>a h1 c3 h2 p h3 c1 h4 q h5 r h6 h7.
            create_leaf \<sigma> (PyFloat 2) h = (a, h1) \<and> create_leaf \<sigma> (PyFloat 3) h1 = (c3, h2)
          \<and> Value_mul \<sigma> a (Ref c3) h2 = (Inr p, h3)
          \<and> create_leaf \<sigma> (PyFloat 1) h3 = (c1, h4)
          \<and> Value_add \<sigma> a (Ref c1) h4 = (Inr q, h5)
          \<and> Value_mul \<sigma> p (Ref q) h5 = (Inr r, h6)
          \<and> backward h6 r = (Inr (), h7) \<and> v_grad (h7 ! a) = PyFloat 15)"
proof (rule conjI)
  show "\<exists>a h1 b h2 h3.
            create_leaf \<sigma> (PyFloat 3) h = (a, h1) \<and> Value_mul \<sigma> a (Ref a) h1 = (Inr b, h2)
          \<and> backward h2 b = (Inr (), h3) \<and> v_grad (h3 ! a) = PyFloat 6"
    by (simp add: create_leaf_eq Value_mul_Ref set_order_Nil[OF s] set_order_same[OF s]
        eval_backward)
next
  let ?n = "length h"
  have p1: "\<sigma> [?n, Suc ?n] = [?n, Suc ?n] \<or> \<sigma> [?n, Suc ?n] = [Suc ?n, ?n]"
    by (rule set_order_pair[OF s]) simp
  have p2: "\<sigma> [?n, Suc (Suc (Suc ?n))] = [?n, Suc (Suc (Suc ?n))]
          \<or> \<sigma> [?n, Suc (Suc (Suc ?n))] = [Suc (Suc (Suc ?n)), ?n]"
    by (rule set_order_pair[OF s]) simp
  have p3: "\<sigma> [Suc (Suc ?n), Suc (Suc (Suc (Suc ?n)))] = [Suc (Suc ?n), Suc (Suc (Suc (Suc ?n)))]
          \<or> \<sigma> [Suc (Suc ?n), Suc (Suc (Suc (Suc ?n)))] = [Suc (Suc (Suc (Suc ?n))), Suc (Suc ?n)]"
    by (rule set_order_pair[OF s]) simp
  from p1 p2 p3
  show "\<exists>a h1 c3 h2 p h3 c1 h4 q h5 r h6 h7.
            create_leaf \<sigma> (PyFloat 2) h = (a, h1) \<and> create_leaf \<sigma> (PyFloat 3) h1 = (c3, h2)
          \<and> Value_mul \<sigma> a (Ref c3) h2 = (Inr p, h3)
          \<and> create_leaf \<sigma> (PyFloat 1) h3 = (c1, h4)
          \<and> Value_add \<sigma> a (Ref c1) h4 = (Inr q, h5)
          \<and> Value_mul \<sigma> p (Ref q) h5 = (Inr r, h6)
          \<and> backward h6 r = (Inr (), h7) \<and> v_grad (h7 ! a) = PyFloat 15"
    by (elim disjE)
       (simp_all add: create_leaf_eq Value_mul_Ref Value_add_Ref set_order_Nil[OF s] eval_backward)
qed

theorem shared_gradient_accumulates_witness:
  "set_order remdups
   \<and> (\<exists>a h1 b h2 h3.
            create_leaf remdups (PyFloat 3) [] = (a, h1)
          \<and> Value_mul remdups a (Ref a) h1 = (Inr b, h2)
          \<and> backward h2 b = (Inr (), h3) \<and> v_grad (h3 ! a) = PyFloat 6)
   \<and> (\<exists>a h1 c3 h2 p h3 c1 h4 q h5 r h6 h7.
            create_leaf remdups (PyFloat 2) [] = (a, h1)
          \<and> create_leaf remdups (PyFloat 3) h1 = (c3, h2)
          \<and> Value_mul remdups a (Ref c3) h2 = (Inr p, h3)
          \<and> create_leaf remdups (PyFloat 1) h3 = (c1, h4)
          \<and> Value_add remdups a (Ref c1) h4 = (Inr q, h5)
          \<and> Value_mul remdups p (Ref q) h5 = (Inr r, h6)
          \<and> backward h6 r = (Inr (), h7) \<and> v_grad (h7 ! a) = PyFloat 15)"
  using shared_gradient_accumulates[OF set_order_remdups, of "[]"] set_order_remdups
  by (rule conjI[rotated])

text \<open>
  C2, amended. On an acyclic graph, a call of \<open>backward\<close> in which no \<open>_backward\<close> raises
  calls the \<open>_backward\<close> of every node reachable from the terminal exactly once, every
  node before all of its operands; nodes are told apart by identity (their index), not
  by \<open>data\<close>: in the diamond the nodes 1 and 4 both have \<open>data\<close> 3.0 and both are called.
\<close>

theorem backward_rules_once_parents_first:
  assumes "acyclic (edges h)" and "fst (backward h t) = Inr ()"
  shows "backward_invoked h t = backward_order h t
       \<and> distinct (backward_order h t)
       \<and> set (backward_order h t) = reachable h t
       \<and> parents_first h (backward_order h t)"
proof -
  from assms(2) have "backward_invoked h t = backward_order h t"
    by (simp add: backward_def backward_invoked_def Let_def invoked_all)
  then show ?thesis
    by (simp add: backward_order_distinct backward_order_set backward_order_parents_first[OF assms(1)])
qed

theorem backward_rules_once_parents_first_witness:
  "acyclic (edges diamond_heap) \<and> fst (backward diamond_heap 5) = Inr ()
   \<and> backward_invoked diamond_heap 5 = [5, 4, 3, 2, 1, 0]
   \<and> reachable diamond_heap 5 = {0, 1, 2, 3, 4, 5}
   \<and> parents_first diamond_heap [5, 4, 3, 2, 1, 0]"
proof -
  have a: "acyclic (edges diamond_heap)" by (rule older_operands_acyclic[OF diamond_older])
  have b: "fst (backward diamond_heap 5) = Inr ()" by (simp add: diamond_backward)
  from backward_rules_once_parents_first[OF a b] a b show ?thesis
    by (auto simp: diamond_order)
qed

text \<open>
  As stated, C2 fails when a rule raises: in \<open>x = Value(0.0); y = x ** 0; y.backward()\<close>
  the rule of \<open>y\<close> evaluates \<open>0 * 0.0 ** -1\<close> and raises \<open>ZeroDivisionError\<close>; the rule of
  the reachable node \<open>x\<close> is never called.
\<close>

theorem backward_rules_once_counterexample:
  "acyclic (edges pow_zero_heap) \<and> 0 \<in> reachable pow_zero_heap 1
   \<and> fst (backward pow_zero_heap 1) = Inl ZeroDivisionError
   \<and> backward_invoked pow_zero_heap 1 = [1]"
proof -
  have "older_operands pow_zero_heap" by (simp add: pow_zero_heap_eq older_operands_def)
  then have "acyclic (edges pow_zero_heap)" by (rule older_operands_acyclic)
  moreover have "(1, 0) \<in> edges pow_zero_heap" by (simp add: edges_def prev_of_def pow_zero_heap_eq)
  then have "0 \<in> reachable pow_zero_heap 1" by (auto simp: reachable_def)
  moreover have "fst (backward pow_zero_heap 1) = Inl ZeroDivisionError"
    by (simp add: pow_zero_heap_eq eval_backward py_pow_float_small_int float_pow_def)
  moreover have "backward_invoked pow_zero_heap 1 = [1]"
    by (simp add: pow_zero_heap_eq backward_invoked_def eval_backward py_pow_float_small_int
        float_pow_def)
  ultimately show ?thesis by simp
qed

text \<open>
  C3, amended. A cycle in the operand graph is not detected, and nothing is checked
  before gradients are assigned. On a graph with a cycle the traversal still terminates,
  because a visited node is not entered again; the list the loop walks holds every node
  reachable from the terminal exactly once and begins with the terminal; and \<open>backward\<close>
  is: assign 1.0 to the terminal's \<open>grad\<close>, call the terminal's \<open>_backward\<close> on the
  heap so changed, then call the others in the order of the list. An exception can only
  come out of one of these calls, after \<open>grad\<close> of the terminal has been assigned.
\<close>

theorem cyclic_graph_not_rejected:
  assumes "\<not> acyclic (edges h)"
  shows "distinct (backward_order h t)
       \<and> set (backward_order h t) = reachable h t
       \<and> (\<exists>rest. backward_order h t = t # rest
            \<and> backward h t =
                then_run (call_backward (h[t := (h ! t)\<lparr>v_grad := PyFloat 1\<rparr>]) t)
                  (run_backward rest))
       \<and> (t < length h \<longrightarrow> v_grad (h[t := (h ! t)\<lparr>v_grad := PyFloat 1\<rparr>] ! t) = PyFloat 1)"
proof -
  obtain rest where r: "backward_order h t = t # rest" using backward_order_starts by blast
  then have "backward h t =
      then_run (call_backward (h[t := (h ! t)\<lparr>v_grad := PyFloat 1\<rparr>]) t) (run_backward rest)"
    by (simp add: backward_def Let_def run_backward_Cons del: run_backward.simps)
  with r backward_order_distinct[of h t] backward_order_set[of h t] show ?thesis by simp
qed

theorem cyclic_graph_not_rejected_witness:
  "\<not> acyclic (edges cyclic_heap) \<and> (1 :: nat) < length cyclic_heap
   \<and> distinct (backward_order cyclic_heap 1)
   \<and> set (backward_order cyclic_heap 1) = reachable cyclic_heap 1
   \<and> backward_order cyclic_heap 1 = [1, 0]
   \<and> backward cyclic_heap 1 =
       then_run (call_backward (cyclic_heap[1 := (cyclic_heap ! 1)\<lparr>v_grad := PyFloat 1\<rparr>]) 1)
         (run_backward [0])
   \<and> v_grad (cyclic_heap ! 1) = PyFloat 0
   \<and> v_grad (cyclic_heap[1 := (cyclic_heap ! 1)\<lparr>v_grad := PyFloat 1\<rparr>] ! 1) = PyFloat 1"
proof -
  have l: "(1 :: nat) < length cyclic_heap" and g: "v_grad (cyclic_heap ! 1) = PyFloat 0"
    by (simp_all add: cyclic_heap_def)
  have o: "backward_order cyclic_heap 1 = [1, 0]" using cyclic_heap_order by simp
  from cyclic_graph_not_rejected[OF cyclic_heap_cycle, of 1] o
  have b: "backward cyclic_heap 1 =
       then_run (call_backward (cyclic_heap[1 := (cyclic_heap ! 1)\<lparr>v_grad := PyFloat 1\<rparr>]) 1)
         (run_backward [0])"
    by (auto simp del: run_backward.simps)
  from cyclic_graph_not_rejected[OF cyclic_heap_cycle, of 1] cyclic_heap_cycle l g o b
  show ?thesis by blast
qed

text \<open>
  As stated, C3 fails: on the cyclic heap \<open>y.backward()\<close> returns normally and has changed
  the gradient of \<open>x\<close> from 0.0 to 6.0.
\<close>

theorem cyclic_graph_counterexample:
  "\<not> acyclic (edges cyclic_heap) \<and> fst (backward cyclic_heap 1) = Inr ()
   \<and> v_grad (cyclic_heap ! 0) = PyFloat 0
   \<and> v_grad (snd (backward cyclic_heap 1) ! 0) = PyFloat 6"
proof -
  have "v_grad (cyclic_heap ! 0) = PyFloat 0" by (simp add: cyclic_heap_def)
  with cyclic_heap_cycle show ?thesis by (simp add: cyclic_heap_backward)
qed

text \<open>
  C4. A number on the left of \<open>+\<close> is not supported: class \<open>Value\<close> has \<open>__rmul__\<close> but no
  \<open>__radd__\<close>, so \<open>c + v\<close> raises \<open>TypeError\<close> and creates nothing. (The other three
  positions, \<open>v + c\<close>, \<open>v * c\<close> and \<open>c * v\<close>, work: lemma \<open>scalar_operand_supported\<close>.)
\<close>

theorem scalar_left_add_raises:
  "add_expr \<sigma> (Val c) (Ref v) h = (Inl TypeError, h)"
  by (simp add: add_expr_def)

text \<open>
  C5, amended. Dividing a node by a node whose \<open>data\<close> is zero (\<open>0.0\<close> or \<open>0\<close>) raises
  \<open>ZeroDivisionError\<close>: \<open>__truediv__\<close> computes \<open>other ** -1\<close> first, and Python refuses to
  raise zero to a negative power. No node is created and the heap is unchanged.
\<close>

theorem truediv_zero_divisor:
  "v_data (h ! b) = PyFloat 0 \<or> v_data (h ! b) = PyInt 0
   \<Longrightarrow> Value_truediv \<sigma> a (Ref b) h = (Inl ZeroDivisionError, h)"
  by (auto simp: Value_truediv_def pow_expr_def Value_pow_exponent bind_err_def float_pow_def)

theorem truediv_zero_divisor_witness:
  "v_data (zero_divisor_heap ! 1) = PyFloat 0 \<and>
   Value_truediv remdups 0 (Ref 1) zero_divisor_heap = (Inl ZeroDivisionError, zero_divisor_heap)"
proof -
  have z: "v_data (zero_divisor_heap ! 1) = PyFloat 0" by (simp add: zero_divisor_heap_eq)
  from z truediv_zero_divisor[OF disjI1, OF z] show ?thesis by (rule conjI)
qed

text \<open>As stated, C5 fails for \<open>Value(1.0) / Value(0.0)\<close>.\<close>

theorem truediv_zero_divisor_counterexample:
  "v_data (zero_divisor_heap ! 0) = PyFloat 1 \<and> v_data (zero_divisor_heap ! 1) = PyFloat 0 \<and>
   fst (Value_truediv remdups 0 (Ref 1) zero_divisor_heap) = Inl ZeroDivisionError"
  by (simp add: zero_divisor_heap_eq Value_truediv_def pow_expr_def Value_pow_exponent
      bind_err_def float_pow_def)




text \<open>
  C7, amended. The derived operators are the compositions the specification names, heap
  and result alike: \<open>__neg__\<close> is \<open>multiply(a, constant(-1))\<close>, \<open>__sub__\<close> is
  \<open>add(a, negate(b))\<close>, \<open>__truediv__\<close> is \<open>multiply(a, power(b, -1))\<close>. Whenever Python's
  \<open>- a.data\<close> is defined, \<open>__neg__\<close> returns a node with that \<open>data\<close>; whenever Python's
  \<open>a.data - b.data\<close> is defined, \<open>__sub__\<close> returns a node with that \<open>data\<close>. For floats
  \<open>x = a.data\<close> and \<open>y = b.data\<close> with \<open>y\<close> not 0, \<open>__truediv__\<close> raises \<open>OverflowError\<close> and
  creates nothing when \<open>y ** -1\<close> is out of the range of a double, and otherwise returns
  a node whose \<open>data\<close> is the product \<open>x * y ** -1\<close> (when that is within range), which is
  the quotient \<open>x / y\<close> up to rounding.
\<close>

theorem derived_builders_are_compositions:
  assumes "a < length h" and "b < length h"
  shows "Value_neg \<sigma> a h = spec_negate \<sigma> a h
       \<and> (py_neg (v_data (h ! a)) = Inr na \<longrightarrow>
            (\<exists>out h'. Value_neg \<sigma> a h = (Inr out, h') \<and> v_data (h' ! out) = na))
       \<and> Value_sub \<sigma> a (Ref b) h = spec_subtract \<sigma> a b h
       \<and> (py_sub (v_data (h ! a)) (v_data (h ! b)) = Inr d \<longrightarrow>
            (\<exists>out h'. Value_sub \<sigma> a (Ref b) h = (Inr out, h') \<and> v_data (h' ! out) = d))
       \<and> Value_truediv \<sigma> a (Ref b) h = spec_divide \<sigma> a b h
       \<and> (v_data (h ! a) = PyFloat x \<and> v_data (h ! b) = PyFloat y \<and> y \<noteq> 0 \<longrightarrow>
            (double_overflow (real_power y (- 1)) \<longrightarrow>
               Value_truediv \<sigma> a (Ref b) h = (Inl OverflowError, h))
          \<and> (\<not> double_overflow (real_power y (- 1))
               \<and> \<not> double_overflow (x * real_power y (- 1)) \<longrightarrow>
               (\<exists>out h'. Value_truediv \<sigma> a (Ref b) h = (Inr out, h')
                  \<and> v_data (h' ! out) = PyFloat (x * real_power y (- 1)))))"
proof (intro conjI)
  show "Value_neg \<sigma> a h = spec_negate \<sigma> a h"
    by (simp add: Value_neg_def spec_negate_def Value_mul_Val create_leaf_eq)
  show "py_neg (v_data (h ! a)) = Inr na \<longrightarrow>
            (\<exists>out h'. Value_neg \<sigma> a h = (Inr out, h') \<and> v_data (h' ! out) = na)"
    using assms
    by (auto simp: Value_neg_def Value_mul_Val Value_mul_Ref create_leaf_eq nth_append
        dest: py_mul_minus_one)
  show "Value_sub \<sigma> a (Ref b) h = spec_subtract \<sigma> a b h"
    by (simp add: Value_sub_def neg_expr_def spec_subtract_def spec_negate_def Value_neg_def
        Value_mul_Val create_leaf_eq split: prod.splits sum.splits)
  show "py_sub (v_data (h ! a)) (v_data (h ! b)) = Inr d \<longrightarrow>
            (\<exists>out h'. Value_sub \<sigma> a (Ref b) h = (Inr out, h') \<and> v_data (h' ! out) = d)"
  proof
    assume "py_sub (v_data (h ! a)) (v_data (h ! b)) = Inr d"
    then obtain nv where "py_mul (v_data (h ! b)) (PyInt (- 1)) = Inr nv"
      and "py_add (v_data (h ! a)) nv = Inr d"
      using py_sub_as_add by blast
    with assms show "\<exists>out h'. Value_sub \<sigma> a (Ref b) h = (Inr out, h') \<and> v_data (h' ! out) = d"
      by (simp add: Value_sub_def neg_expr_def Value_neg_def Value_mul_Val Value_mul_Ref
          Value_add_Ref create_leaf_eq nth_append)
  qed
  show "Value_truediv \<sigma> a (Ref b) h = spec_divide \<sigma> a b h"
    by (simp add: Value_truediv_def pow_expr_def spec_divide_def split: prod.splits sum.splits)
  show "v_data (h ! a) = PyFloat x \<and> v_data (h ! b) = PyFloat y \<and> y \<noteq> 0 \<longrightarrow>
            (double_overflow (real_power y (- 1)) \<longrightarrow>
               Value_truediv \<sigma> a (Ref b) h = (Inl OverflowError, h))
          \<and> (\<not> double_overflow (real_power y (- 1))
               \<and> \<not> double_overflow (x * real_power y (- 1)) \<longrightarrow>
               (\<exists>out h'. Value_truediv \<sigma> a (Ref b) h = (Inr out, h')
                  \<and> v_data (h' ! out) = PyFloat (x * real_power y (- 1))))"
  proof (intro impI conjI, goal_cases)
    case 1
    then have "float_pow y (- 1) = Inl OverflowError"
      using float_pow_overflow[of y "- 1"] by simp
    with 1 assms show ?case by (simp add: Value_truediv_float)
  next
    case 2
    then have "float_pow y (- 1) = Inr (PyFloat (real_power y (- 1)))"
      using float_pow_real[of y "- 1"] by simp
    with 2 assms show ?case by (simp add: Value_truediv_float Value_mul_Ref nth_append)
  qed
qed

theorem derived_builders_are_compositions_witness:
  "(0 :: nat) < length two_leaf_heap \<and> (1 :: nat) < length two_leaf_heap
   \<and> v_data (two_leaf_heap ! 0) = PyFloat 2 \<and> v_data (two_leaf_heap ! 1) = PyFloat 3
   \<and> (3 :: real) \<noteq> 0
   \<and> py_neg (v_data (two_leaf_heap ! 0)) = Inr (PyFloat (- 2))
   \<and> py_sub (v_data (two_leaf_heap ! 0)) (v_data (two_leaf_heap ! 1)) = Inr (PyFloat (- 1))
   \<and> \<not> double_overflow (real_power 3 (- 1)) \<and> \<not> double_overflow (2 * real_power 3 (- 1))
   \<and> real_power 3 (- 1) = 1 / 3
   \<and> Value_neg remdups 0 two_leaf_heap = spec_negate remdups 0 two_leaf_heap
   \<and> (\<exists>out h'. Value_neg remdups 0 two_leaf_heap = (Inr out, h')
         \<and> v_data (h' ! out) = PyFloat (- 2))
   \<and> Value_sub remdups 0 (Ref 1) two_leaf_heap = spec_subtract remdups 0 1 two_leaf_heap
   \<and> (\<exists>out h'. Value_sub remdups 0 (Ref 1) two_leaf_heap = (Inr out, h')
         \<and> v_data (h' ! out) = PyFloat (- 1))
   \<and> Value_truediv remdups 0 (Ref 1) two_leaf_heap = spec_divide remdups 0 1 two_leaf_heap
   \<and> (\<exists>out h'. Value_truediv remdups 0 (Ref 1) two_leaf_heap = (Inr out, h')
         \<and> v_data (h' ! out) = PyFloat (2 * real_power 3 (- 1)))"
proof -
  have l: "(0 :: nat) < length two_leaf_heap" "(1 :: nat) < length two_leaf_heap"
    by (simp_all add: two_leaf_heap_eq)
  have d: "v_data (two_leaf_heap ! 0) = PyFloat 2" "v_data (two_leaf_heap ! 1) = PyFloat 3"
    by (simp_all add: two_leaf_heap_eq)
  have z: "(3 :: real) \<noteq> 0" by simp
  have n: "py_neg (v_data (two_leaf_heap ! 0)) = Inr (PyFloat (- 2))"
    and s: "py_sub (v_data (two_leaf_heap ! 0)) (v_data (two_leaf_heap ! 1)) = Inr (PyFloat (- 1))"
    by (simp_all add: two_leaf_heap_eq)
  have r: "real_power 3 (- 1) = 1 / 3" by (simp add: real_power_minus_one)
  have o: "\<not> double_overflow (real_power 3 (- 1))"
    "\<not> double_overflow (2 * real_power 3 (- 1))"
    by (simp_all add: r no_overflow_small)
  from derived_builders_are_compositions[OF l, of remdups "PyFloat (- 2)" "PyFloat (- 1)" 2 3]
    l d z n s r o
  show ?thesis by blast
qed

text \<open>
  As stated, C7 fails for \<open>Value(1.0) / Value(2.0 ** -1060)\<close>: the divisor is not 0 and
  the call raises \<open>OverflowError\<close>.
\<close>

theorem derived_builders_counterexample:
  "v_data (tiny_divisor_heap ! 0) = PyFloat 1
   \<and> v_data (tiny_divisor_heap ! 1) = PyFloat (1 / 2 ^ 1060)
   \<and> Value_truediv remdups 0 (Ref 1) tiny_divisor_heap = (Inl OverflowError, tiny_divisor_heap)"
proof -
  have b: "(1 :: nat) < length tiny_divisor_heap"
    and d0: "v_data (tiny_divisor_heap ! 0) = PyFloat 1"
    and d1: "v_data (tiny_divisor_heap ! 1) = PyFloat (1 / 2 ^ 1060)"
    by (simp_all add: tiny_divisor_heap_eq)
  have "float_pow (1 / 2 ^ 1060) (- 1) = Inl OverflowError"
    by (rule float_pow_overflow[OF _ _ tiny_inverse_overflow]) simp_all
  with Value_truediv_float[OF b d1, of remdups 0]
  have "Value_truediv remdups 0 (Ref 1) tiny_divisor_heap = (Inl OverflowError, tiny_divisor_heap)"
    by simp
  with d0 d1 show ?thesis by blast
qed




text \<open>
  C9. A call of \<open>backward\<close> changes \<open>grad\<close> fields only: the heap keeps its length, and
  \<open>data\<close>, \<open>_prev\<close>, \<open>_op\<close> and \<open>_backward\<close> of every node are as before, whether the call
  returns or raises. On a heap built by the operators, the \<open>grad\<close> of every node that is
  not reachable from the terminal is unchanged as well.
\<close>

theorem backward_changes_gradients_only:
  assumes "wf_heap h" and "t < length h" and "backward h t = (r, h')"
  shows "length h' = length h
       \<and> (\<forall>v. v_data (h' ! v) = v_data (h ! v) \<and> v_prev (h' ! v) = v_prev (h ! v)
              \<and> v_op (h' ! v) = v_op (h ! v) \<and> v_backward (h' ! v) = v_backward (h ! v))
       \<and> (\<forall>v. v \<notin> reachable h t \<longrightarrow> v_grad (h' ! v) = v_grad (h ! v))"
proof -
  have "same_shape h h'" using backward_shape[of h t] assms(3) by simp
  moreover have "v_grad (h' ! v) = v_grad (h ! v)" if "v \<notin> reachable h t" for v
  proof -
    from that have "v \<noteq> t" by (auto simp: reachable_def)
    moreover from that have "v \<notin> (edges h)\<^sup>+ `` {t}"
      by (auto simp: reachable_def dest: trancl_into_rtrancl)
    ultimately show ?thesis using backward_frame[OF assms(1,2), of v] assms(3) by simp
  qed
  ultimately show ?thesis by (simp add: same_shape_def)
qed

theorem backward_changes_gradients_only_witness:
  "wf_heap diamond_heap \<and> (2 :: nat) < length diamond_heap
   \<and> 4 \<notin> reachable diamond_heap 2
   \<and> v_grad (snd (backward diamond_heap 2) ! 4) = v_grad (diamond_heap ! 4)
   \<and> v_data (snd (backward diamond_heap 2) ! 0) = v_data (diamond_heap ! 0)
   \<and> v_grad (snd (backward diamond_heap 2) ! 0) = PyFloat 3"
proof -
  have l: "(2 :: nat) < length diamond_heap" by (simp add: diamond_heap_eq)
  have b: "backward diamond_heap 2 = (fst (backward diamond_heap 2), snd (backward diamond_heap 2))"
    by simp
  have n: "4 \<notin> reachable diamond_heap 2" by (simp add: diamond_reachable_p)
  have g: "v_grad (snd (backward diamond_heap 2) ! 0) = PyFloat 3" by (simp add: diamond_backward_p)
  from backward_changes_gradients_only[OF diamond_wf l b] n g diamond_wf l show ?thesis by simp
qed

text \<open>
  C10. \<open>backward\<close> assigns 1.0 to the terminal's \<open>grad\<close>, whatever it was: on a heap built
  by the operators, when the terminal is not an operand of a node reachable from it, its
  \<open>grad\<close> is 1.0 after the call (also when a rule raised). On a leaf just created the
  call returns, sets that leaf's \<open>grad\<close> to 1.0 and changes nothing else.
\<close>

theorem backward_seeds_terminal:
  assumes "wf_heap h" and "t < length h" and "(t, t) \<notin> (edges h)\<^sup>+" and "set_order \<sigma>"
  shows "v_grad (snd (backward h t) ! t) = PyFloat 1
       \<and> (\<exists>a h1. create_leaf \<sigma> x h = (a, h1)
            \<and> backward h1 a = (Inr (), h1[a := (h1 ! a)\<lparr>v_grad := PyFloat 1\<rparr>]))"
proof
  from assms(3) have "t \<notin> (edges h)\<^sup>+ `` {t}" by simp
  from backward_frame[OF assms(1,2) this] assms(2)
  show "v_grad (snd (backward h t) ! t) = PyFloat 1" by simp
next
  show "\<exists>a h1. create_leaf \<sigma> x h = (a, h1)
            \<and> backward h1 a = (Inr (), h1[a := (h1 ! a)\<lparr>v_grad := PyFloat 1\<rparr>])"
    by (simp add: create_leaf_eq set_order_Nil[OF assms(4)] eval_backward)
qed

theorem backward_seeds_terminal_witness:
  "wf_heap diamond_heap \<and> (5 :: nat) < length diamond_heap
   \<and> (5, 5) \<notin> (edges diamond_heap)\<^sup>+ \<and> set_order remdups
   \<and> v_grad (snd (backward diamond_heap 5) ! 5) = PyFloat 1
   \<and> (\<exists>a h1. create_leaf remdups (PyFloat 7) diamond_heap = (a, h1)
            \<and> backward h1 a = (Inr (), h1[a := (h1 ! a)\<lparr>v_grad := PyFloat 1\<rparr>]))"
proof -
  have l: "(5 :: nat) < length diamond_heap" by (simp add: diamond_heap_eq)
  have c: "(5, 5) \<notin> (edges diamond_heap)\<^sup>+"
    using older_operands_acyclic[OF diamond_older] by (simp add: acyclic_def)
  from backward_seeds_terminal[OF diamond_wf l c set_order_remdups, of "PyFloat 7"]
    diamond_wf l c set_order_remdups
  show ?thesis by simp
qed

end
